theory Spec2Isabelle
  imports Complex_Main "HOL-Library.Multiset"
begin

section \<open>Values\<close>

text \<open>
  The server is JavaScript. The values it handles are modelled as follows.
  \<^item> Numbers read from the clock or from upstream (epoch milliseconds, lifetimes in
    seconds, status and priority codes, ids) are integers far below \<open>2^53\<close>, where the
    arithmetic of IEEE doubles is exact; they are \<open>int\<close>. \<open>NaN\<close>, which arithmetic on a
    missing value produces, is a value of its own in \<open>jsnum\<close>.
  \<^item> A property that may be missing is an \<open>option\<close>; \<open>None\<close> stands for \<open>undefined\<close>
    and \<open>null\<close>. A property that is present has the type the upstream API gives it:
    integer codes and ids, epoch milliseconds, strings for names, tokens and dates.
  \<^item> Objects built for a response are \<open>json\<close> values; the numbers in them (counts and
    percentages) are exact rationals, so the rounding of a quotient in its last bit is
    outside the model.
  \<^item> An object used as a dictionary is the association list of its own properties in
    creation order. A directory is keyed by numeric ids and the two tables of
    \<open>processPriorityDistribution\<close> are read with an integer code and with one of six
    labels, so a read of them never reaches \<open>Object.prototype\<close>. The counting
    dictionaries are keyed by display names, which can be any string: their reads and
    writes go through \<open>Object.prototype\<close>.
\<close>

datatype jsnum = Num int | NaN

datatype json =
    JNull
  | JBool bool
  | JNum rat
  | JStr string
  | JArr "json list"
  | JObj "(string \<times> json) list"

text \<open>Truthiness, as \<open>&&\<close>, \<open>||\<close> and \<open>!\<close> test it: a missing value, the empty string and
  the number 0 are falsy.\<close>

fun truthy_str :: "string option \<Rightarrow> bool" where
  "truthy_str None = False"
| "truthy_str (Some s) = (s \<noteq> [])"

fun truthy_num :: "int option \<Rightarrow> bool" where
  "truthy_num None = False"
| "truthy_num (Some n) = (n \<noteq> 0)"

text \<open>Own-property read \<open>o[k]\<close> on a response object.\<close>

fun get :: "json \<Rightarrow> string \<Rightarrow> json option" where
  "get (JObj fields) k = map_of fields k"
| "get _ k = None"

section \<open>Token cache\<close>

text \<open>\<open>let tokenCache = { token: null, expiresAt: null }\<close>\<close>

record token_cache =
  token :: "string option"
  expiresAt :: "jsnum option"

definition tokenCache_initial :: token_cache where
  "tokenCache_initial = \<lparr>token = None, expiresAt = None\<rparr>"

text \<open>\<open>Date.now() < tokenCache.expiresAt\<close>: \<open>null\<close> converts to 0, and every comparison
  with \<open>NaN\<close> is false.\<close>

fun now_before :: "int \<Rightarrow> jsnum option \<Rightarrow> bool" where
  "now_before n None = (n < 0)"
| "now_before n (Some NaN) = False"
| "now_before n (Some (Num e)) = (n < e)"

text \<open>\<open>Date.now() + (response.data.expiresIn - 300) * 1000\<close>: a missing \<open>expiresIn\<close> gives
  \<open>NaN\<close>.\<close>

fun expiry_from :: "int \<Rightarrow> int option \<Rightarrow> jsnum" where
  "expiry_from n None = NaN"
| "expiry_from n (Some l) = Num (n + (l - 300) * 1000)"

text \<open>What axios rejects with: a message, and the body of the upstream response when
  the error carries one (\<open>e.response?.data\<close>).\<close>

record js_error =
  message :: string
  response_data :: "json option"

text \<open>The body of a successful answer of the token endpoint, \<open>{token, expiresIn}\<close>; either
  property may be missing.\<close>

record token_response =
  data_token :: "string option"
  data_expiresIn :: "int option"

text \<open>The requests a call sends upstream, in order.\<close>

datatype request = PostAccessTokens | GetConnect string

text \<open>
  \<open>getAccessToken\<close>. The cache is passed in and returned; \<open>now\<close> is the clock at the
  test of line 56, \<open>post\<close> is what \<open>axios.post\<close> settles with if it is called, \<open>now'\<close> is
  the clock when the answer is stored (line 76). The result is the returned token or the
  thrown error, the cache afterwards, and the requests that were sent.
\<close>

definition getAccessToken ::
  "token_cache \<Rightarrow> int \<Rightarrow> js_error + token_response \<Rightarrow> int
    \<Rightarrow> (js_error + string option) \<times> token_cache \<times> request list" where
  "getAccessToken tokenCache now post now' =
     (if truthy_str (token tokenCache) \<and> now_before now (expiresAt tokenCache)
      then (Inr (token tokenCache), tokenCache, [])
      else (case post of
              Inl e \<Rightarrow> (Inl e, tokenCache, [PostAccessTokens])
            | Inr data \<Rightarrow>
                (let tokenCache' = tokenCache\<lparr>token := data_token data\<rparr>;
                     tokenCache'' = tokenCache'\<lparr>expiresAt :=
                        Some (expiry_from now' (data_expiresIn data))\<rparr>
                 in (Inr (token tokenCache''), tokenCache'', [PostAccessTokens]))))"

text \<open>True when \<open>getAccessToken\<close> at clock \<open>now\<close> answers from the cache.\<close>

definition cache_valid :: "token_cache \<Rightarrow> int \<Rightarrow> bool" where
  "cache_valid tokenCache now =
     (truthy_str (token tokenCache) \<and> now_before now (expiresAt tokenCache))"

section \<open>Health\<close>

text \<open>\<open>GET /api/health\<close>: the body \<open>{status: 'ok', tokenCached: !!tokenCache.token}\<close>.\<close>

definition health :: "token_cache \<Rightarrow> json" where
  "health tokenCache =
     JObj [(''status'', JStr ''ok''), (''tokenCached'', JBool (truthy_str (token tokenCache)))]"

section \<open>Upstream client and route handlers\<close>

text \<open>
  \<open>callConnect\<close>: obtain a token, then one GET. \<open>fetched\<close> is what \<open>axios.get\<close> settles
  with if it is called: the thrown error or \<open>response.data\<close>. A failure of
  \<open>getAccessToken\<close> is rethrown before any GET is sent.
\<close>

definition callConnect ::
  "token_cache \<Rightarrow> int \<Rightarrow> js_error + token_response \<Rightarrow> int \<Rightarrow> string \<Rightarrow> js_error + 'a
    \<Rightarrow> (js_error + 'a) \<times> token_cache \<times> request list" where
  "callConnect tokenCache now post now' endpoint fetched =
     (case getAccessToken tokenCache now post now' of
        (Inl e, tokenCache', sent) \<Rightarrow> (Inl e, tokenCache', sent)
      | (Inr bearer, tokenCache', sent) \<Rightarrow>
          (fetched, tokenCache', sent @ [GetConnect endpoint]))"

text \<open>What a handler sends: the status code (200 unless \<open>res.status\<close> sets it) and the
  JSON body. A property whose value is \<open>undefined\<close> is left out of the body, as
  \<open>res.json\<close> serialises it.\<close>

record http_response =
  status_code :: nat
  body :: json

text \<open>The property \<open>details: e.response?.data\<close> of an error body.\<close>

fun details_of :: "js_error \<Rightarrow> (string \<times> json) list" where
  "details_of e =
     (case response_data e of None \<Rightarrow> [] | Some d \<Rightarrow> [(''details'', d)])"

text \<open>\<open>GET /api/tickets\<close>, given what \<open>await callConnect(...)\<close> produced.\<close>

definition tickets_handler :: "js_error + json \<Rightarrow> http_response" where
  "tickets_handler outcome =
     (case outcome of
        Inr records \<Rightarrow>
          \<lparr>status_code = 200, body = JObj [(''success'', JBool True), (''data'', records)]\<rparr>
      | Inl e \<Rightarrow>
          \<lparr>status_code = 500,
           body = JObj ([(''success'', JBool False), (''error'', JStr (message e))]
                          @ details_of e)\<rparr>)"

text \<open>\<open>GET /api/connect/*\<close>, the read-only proxy.\<close>

definition connect_handler :: "js_error + json \<Rightarrow> http_response" where
  "connect_handler outcome =
     (case outcome of
        Inr data \<Rightarrow>
          \<lparr>status_code = 200, body = JObj [(''success'', JBool True), (''data'', data)]\<rparr>
      | Inl e \<Rightarrow>
          \<lparr>status_code = 500,
           body = JObj [(''success'', JBool False), (''error'', JStr (message e))]\<rparr>)"

section \<open>Ticket records and dictionaries\<close>

text \<open>The fields of a service record that the server reads. Ids are numeric, and an
  agent or end-user directory is the lookup \<open>map[id]\<close> from an id to the display name
  stored for it.\<close>

record ticket =
  status :: "int option"
  priority :: "int option"
  assignee :: "int option"
  requestUser :: "int option"
  insertTime :: "int option"
  updateTime :: "int option"
  dueDate :: "string option"

text \<open>Assignment \<open>d[k] = v\<close>: an existing property keeps its place, a new one is
  created last.\<close>

fun set_prop :: "string \<Rightarrow> 'a \<Rightarrow> (string \<times> 'a) list \<Rightarrow> (string \<times> 'a) list" where
  "set_prop k v [] = [(k, v)]"
| "set_prop k v ((k', v') # d) = (if k = k' then (k, v) # d else (k', v') # set_prop k v d)"

text \<open>
  The counting dictionaries are created as \<open>{}\<close>, so they inherit from
  \<open>Object.prototype\<close>. A read \<open>d[k]\<close> of a key that is not an own property finds the
  inherited property of that name when there is one: a built-in function, or for
  \<open>__proto__\<close> the prototype object itself. \<open>object_prototype\<close> lists these names with the
  text the inherited value becomes when \<open>+\<close> converts it to a string.
\<close>

definition object_prototype :: "(string \<times> string) list" where
  "object_prototype =
     [(''constructor'', ''function Object() { [native code] }''),
      (''__defineGetter__'', ''function __defineGetter__() { [native code] }''),
      (''__defineSetter__'', ''function __defineSetter__() { [native code] }''),
      (''hasOwnProperty'', ''function hasOwnProperty() { [native code] }''),
      (''__lookupGetter__'', ''function __lookupGetter__() { [native code] }''),
      (''__lookupSetter__'', ''function __lookupSetter__() { [native code] }''),
      (''isPrototypeOf'', ''function isPrototypeOf() { [native code] }''),
      (''propertyIsEnumerable'', ''function propertyIsEnumerable() { [native code] }''),
      (''toString'', ''function toString() { [native code] }''),
      (''valueOf'', ''function valueOf() { [native code] }''),
      (''__proto__'', ''[object Object]''),
      (''toLocaleString'', ''function toLocaleString() { [native code] }'')]"

text \<open>What a counting dictionary holds under a key: a count, or the string that
  \<open>+ 1\<close> made of an inherited value.\<close>

datatype dval = Count nat | Text string

text \<open>
  \<open>(d[k] || 0) + 1\<close>, given the own property of \<open>d\<close> under \<open>k\<close> if there is one. A number
  is incremented. A string, and an inherited function or object, is truthy and \<open>+ 1\<close>
  appends the character 1 to its text. Only a key found neither in \<open>d\<close> nor in the
  prototype starts at 1.
\<close>

fun next_value :: "string \<Rightarrow> dval option \<Rightarrow> dval" where
  "next_value k (Some (Count c)) = Count (c + 1)"
| "next_value k (Some (Text s)) = (if s \<noteq> [] then Text (s @ ''1'') else Count 1)"
| "next_value k None =
     (case map_of object_prototype k of
        Some inherited \<Rightarrow> Text (inherited @ ''1'')
      | None \<Rightarrow> Count 1)"

text \<open>
  \<open>d[k] = (d[k] || 0) + 1\<close>. The assignment to \<open>__proto__\<close> calls the inherited setter,
  which ignores a value that is neither an object nor \<open>null\<close>: nothing is stored.
\<close>

definition increment :: "(string \<times> dval) list \<Rightarrow> string \<Rightarrow> (string \<times> dval) list" where
  "increment d k =
     (if k = ''__proto__'' then d else set_prop k (next_value k (map_of d k)) d)"

text \<open>
  \<open>Object.entries\<close> lists the keys that are array indices (canonical decimal numerals
  below \<open>2^32 - 1\<close>) first, in ascending numeric order, and then the other keys in
  creation order.
\<close>

definition is_digit :: "char \<Rightarrow> bool" where
  "is_digit c = (c \<in> set ''0123456789'')"

definition decimal :: "string \<Rightarrow> int" where
  "decimal s = foldl (\<lambda>n c. 10 * n + (of_char c - 48)) 0 s"

definition array_index :: "string \<Rightarrow> int option" where
  "array_index s =
     (if s \<noteq> [] \<and> list_all is_digit s \<and> (s = ''0'' \<or> hd s \<noteq> CHR ''0'')
         \<and> decimal s < 4294967295
      then Some (decimal s) else None)"

definition object_entries :: "(string \<times> 'a) list \<Rightarrow> (string \<times> 'a) list" where
  "object_entries d =
     sort_key (\<lambda>(k, v). case array_index k of Some i \<Rightarrow> i | None \<Rightarrow> 0)
       (filter (\<lambda>(k, v). array_index k \<noteq> None) d)
     @ filter (\<lambda>(k, v). array_index k = None) d"

text \<open>
  \<open>x - y\<close> in a comparator, on the \<open>value\<close> or \<open>count\<close> of two entries. Two numbers
  give their difference. The strings that occur there are the texts built by
  \<open>next_value\<close>, which are not numerals and convert to \<open>NaN\<close>, as a missing operand does;
  the result is then \<open>NaN\<close>, here \<open>None\<close>.
\<close>

fun num_minus :: "json option \<Rightarrow> json option \<Rightarrow> rat option" where
  "num_minus (Some (JNum x)) (Some (JNum y)) = Some (x - y)"
| "num_minus _ _ = None"

text \<open>
  \<open>Array.prototype.sort\<close> with a comparator is stable: \<open>a\<close> stays before a later \<open>b\<close>
  unless the comparator is positive on \<open>(a, b)\<close>; \<open>NaN\<close> counts as 0. When the
  comparator is not consistent, which here means that it returns \<open>NaN\<close> on some pair,
  the language leaves the order to the implementation; \<open>js_sort\<close> is then one possible
  order, and nothing below that concerns such an input depends on the order.
\<close>

fun keeps_order :: "rat option \<Rightarrow> bool" where
  "keeps_order None = True"
| "keeps_order (Some v) = (v \<le> 0)"

fun sort_insert :: "('a \<Rightarrow> 'a \<Rightarrow> rat option) \<Rightarrow> 'a \<Rightarrow> 'a list \<Rightarrow> 'a list" where
  "sort_insert cmp x [] = [x]"
| "sort_insert cmp x (y # ys) =
     (if keeps_order (cmp x y) then x # y # ys else y # sort_insert cmp x ys)"

fun js_sort :: "('a \<Rightarrow> 'a \<Rightarrow> rat option) \<Rightarrow> 'a list \<Rightarrow> 'a list" where
  "js_sort cmp [] = []"
| "js_sort cmp (x # xs) = sort_insert cmp x (js_sort cmp xs)"

section \<open>Aggregators\<close>

text \<open>The arrow functions that turn an entry \<open>[name, count]\<close> of a dictionary into an
  object: \<open>({name, value: count})\<close> in the two distributions, \<open>({name, count})\<close> in the
  two rankings.\<close>

fun json_of :: "dval \<Rightarrow> json" where
  "json_of (Count c) = JNum (of_nat c)"
| "json_of (Text s) = JStr s"

definition value_entry :: "string \<times> dval \<Rightarrow> json" where
  "value_entry = (\<lambda>(name, cnt). JObj [(''name'', JStr name), (''value'', json_of cnt)])"

definition count_entry :: "string \<times> dval \<Rightarrow> json" where
  "count_entry = (\<lambda>(name, cnt). JObj [(''name'', JStr name), (''count'', json_of cnt)])"

text \<open>\<open>id && map[id]\<close> as a condition, and the name it selects: the id is truthy and the
  directory holds a truthy (non-empty) name for it.\<close>

fun resolved :: "(int \<Rightarrow> string option) \<Rightarrow> int option \<Rightarrow> string option" where
  "resolved m None = None"
| "resolved m (Some i) = (if i \<noteq> 0 \<and> truthy_str (m i) then m i else None)"

text \<open>Lines 187 to 192: the bucket of a record in the assignee distribution.\<close>

definition assigneeName :: "(int \<Rightarrow> string option) \<Rightarrow> ticket \<Rightarrow> string" where
  "assigneeName agentMap record =
     (case resolved agentMap (assignee record) of
        Some name \<Rightarrow> name
      | None \<Rightarrow> ''Unassigned'')"

definition processAssigneeDistribution ::
  "ticket list \<Rightarrow> (int \<Rightarrow> string option) \<Rightarrow> json list" where
  "processAssigneeDistribution records agentMap =
     js_sort (\<lambda>a b. num_minus (get b ''value'') (get a ''value''))
       (map value_entry
          (object_entries
             (foldl (\<lambda>distribution record.
                  increment distribution (assigneeName agentMap record))
                [] records)))"

definition priorityMap :: "(int \<times> string) list" where
  "priorityMap =
     [(1, ''Very High''), (2, ''High''), (3, ''Normal''), (4, ''Low''), (5, ''Very Low'')]"

text \<open>\<open>priorityMap[record.priority] || 'Unknown'\<close>. The key is the numeral of an integer
  or \<open>undefined\<close>, never the name of an inherited property.\<close>

fun priority_name :: "int option \<Rightarrow> string" where
  "priority_name None = ''Unknown''"
| "priority_name (Some p) =
     (case map_of priorityMap p of
        None \<Rightarrow> ''Unknown''
      | Some label \<Rightarrow> if label \<noteq> [] then label else ''Unknown'')"

definition order :: "(string \<times> rat) list" where
  "order =
     [(''Very High'', 1), (''High'', 2), (''Normal'', 3), (''Low'', 4), (''Very Low'', 5)]"

text \<open>\<open>order[a.name] || 999\<close>. The names of the entries it is applied to are labels
  that \<open>priority_name\<close> returns, none of them the name of an inherited property.\<close>

fun order_or_999 :: "json option \<Rightarrow> rat" where
  "order_or_999 (Some (JStr name)) =
     (case map_of order name of None \<Rightarrow> 999 | Some r \<Rightarrow> if r \<noteq> 0 then r else 999)"
| "order_or_999 _ = 999"

definition processPriorityDistribution :: "ticket list \<Rightarrow> json list" where
  "processPriorityDistribution records =
     js_sort (\<lambda>a b. Some (order_or_999 (get a ''name'') - order_or_999 (get b ''name'')))
       (map value_entry
          (object_entries
             (foldl (\<lambda>distribution record.
                  increment distribution (priority_name (priority record)))
                [] records)))"

definition processTopAdministrators ::
  "ticket list \<Rightarrow> (int \<Rightarrow> string option) \<Rightarrow> json list" where
  "processTopAdministrators records agentMap =
     take 4
       (js_sort (\<lambda>a b. num_minus (get b ''count'') (get a ''count''))
          (map count_entry
             (object_entries
                (foldl (\<lambda>adminCounts record.
                     (case resolved agentMap (assignee record) of
                        Some adminName \<Rightarrow> increment adminCounts adminName
                      | None \<Rightarrow> adminCounts))
                   [] records))))"

definition processTopEndUsers ::
  "ticket list \<Rightarrow> (int \<Rightarrow> string option) \<Rightarrow> json list" where
  "processTopEndUsers records endUserMap =
     take 5
       (js_sort (\<lambda>a b. num_minus (get b ''count'') (get a ''count''))
          (map count_entry
             (object_entries
                (foldl (\<lambda>userCounts record.
                     (case resolved endUserMap (requestUser record) of
                        Some userName \<Rightarrow> increment userCounts userName
                      | None \<Rightarrow> userCounts))
                   [] records))))"

section \<open>Reading a distribution\<close>

text \<open>Two observations on a distribution, used to state its properties: the \<open>value\<close> of
  the entry named \<open>n\<close> (\<open>None\<close> when there is no such entry), and the sum of the \<open>value\<close>
  fields over all entries (\<open>None\<close> when some entry has no number there).\<close>

definition value_of_bucket :: "json list \<Rightarrow> string \<Rightarrow> json option" where
  "value_of_bucket entries n =
     (case find (\<lambda>e. get e ''name'' = Some (JStr n)) entries of
        None \<Rightarrow> None
      | Some e \<Rightarrow> get e ''value'')"

fun value_sum :: "json list \<Rightarrow> rat option" where
  "value_sum [] = Some 0"
| "value_sum (e # es) =
     (case (get e ''value'', value_sum es) of
        (Some (JNum x), Some s) \<Rightarrow> Some (x + s)
      | _ \<Rightarrow> None)"

text \<open>The number held by a dictionary value, 0 for a string.\<close>

fun count_of :: "dval \<Rightarrow> nat" where
  "count_of (Count c) = c"
| "count_of (Text s) = 0"

text \<open>The rank the comparator of \<open>processPriorityDistribution\<close> gives to a name, and the
  six labels in the fixed rank order.\<close>

definition label_rank :: "string \<Rightarrow> rat" where
  "label_rank name = order_or_999 (Some (JStr name))"

definition priority_rank_order :: "string list" where
  "priority_rank_order =
     [''Very High'', ''High'', ''Normal'', ''Low'', ''Very Low'', ''Unknown'']"

text \<open>A record with every field missing, from which the examples are built.\<close>

definition new_ticket :: ticket where
  "new_ticket = \<lparr>status = None, priority = None, assignee = None, requestUser = None,
     insertTime = None, updateTime = None, dueDate = None\<rparr>"

section \<open>Active tickets\<close>

text \<open>
  \<open>r.dueDate && new Date(r.dueDate).getTime() < now\<close>. The parse of a date string by the
  runtime is the parameter \<open>getTime\<close>; an invalid date gives \<open>NaN\<close>.
\<close>

fun is_overdue :: "(string \<Rightarrow> jsnum) \<Rightarrow> int \<Rightarrow> string option \<Rightarrow> bool" where
  "is_overdue getTime now None = False"
| "is_overdue getTime now (Some d) =
     (d \<noteq> [] \<and> (case getTime d of NaN \<Rightarrow> False | Num t \<Rightarrow> t < now))"

text \<open>\<open>r.insertTime && r.insertTime < fiveDaysAgo\<close>\<close>

fun inserted_before :: "int option \<Rightarrow> int \<Rightarrow> bool" where
  "inserted_before None limit = False"
| "inserted_before (Some t) limit = (t \<noteq> 0 \<and> t < limit)"

text \<open>The \<open>data\<close> object of \<open>GET /api/tickets/active\<close>, from the fetched records.\<close>

definition activeTickets_data :: "(string \<Rightarrow> jsnum) \<Rightarrow> int \<Rightarrow> ticket list \<Rightarrow> json" where
  "activeTickets_data getTime now records =
     (let activeRecords = filter (\<lambda>r. status r \<noteq> Some 34) records;
          fiveDaysAgo = now - (5 * 24 * 60 * 60 * 1000);
          overdue = length (filter (\<lambda>r. is_overdue getTime now (dueDate r)) activeRecords);
          openMoreThan5Days =
            length (filter (\<lambda>r. inserted_before (insertTime r) fiveDaysAgo) activeRecords);
          noDueDate = length (filter (\<lambda>r. \<not> truthy_str (dueDate r)) activeRecords)
      in JObj
           [(''totalActive'', JNum (of_nat (length activeRecords))),
            (''overduePercent'',
               JNum (if length activeRecords > 0
                     then (of_nat overdue / of_nat (length activeRecords)) * 100 else 0)),
            (''openMoreThan5Days'',
               JNum (if length activeRecords > 0
                     then (of_nat openMoreThan5Days / of_nat (length activeRecords)) * 100
                     else 0)),
            (''noDueDate'',
               JNum (if length activeRecords > 0
                     then (of_nat noDueDate / of_nat (length activeRecords)) * 100 else 0))])"

text \<open>
  The handler, given what \<open>await callConnect(...)\<close> produced: the record list when the
  body is an array, \<open>None\<close> when it is anything else
  (\<open>Array.isArray(response) ? response : []\<close>).
\<close>

definition tickets_active_handler ::
  "(string \<Rightarrow> jsnum) \<Rightarrow> int \<Rightarrow> js_error + ticket list option \<Rightarrow> http_response" where
  "tickets_active_handler getTime now outcome =
     (case outcome of
        Inr response \<Rightarrow>
          (let records = (case response of Some rs \<Rightarrow> rs | None \<Rightarrow> [])
           in \<lparr>status_code = 200,
               body = JObj [(''success'', JBool True),
                            (''data'', activeTickets_data getTime now records)]\<rparr>)
      | Inl e \<Rightarrow>
          \<lparr>status_code = 500,
           body = JObj ([(''success'', JBool False), (''error'', JStr (message e))]
                          @ details_of e)\<rparr>)"

section \<open>Failure of the acquisition\<close>

text \<open>
  C3. When the cache does not answer and the token-acquisition call fails with \<open>e\<close>,
  \<open>getAccessToken\<close> throws \<open>e\<close>, the cache (token and expiresAt) is exactly what it was,
  and exactly one request was sent: there is no retry. When the cache answers, no
  request is sent at all, so no acquisition can fail.
\<close>

theorem getAccessToken_failure_propagates:
  "(\<not> cache_valid c now \<longrightarrow>
      getAccessToken c now (Inl e) now' = (Inl e, c, [PostAccessTokens])) \<and>
   (cache_valid c now \<longrightarrow>
      getAccessToken c now (Inl e) now' = (Inr (token c), c, []))"
  by (simp add: getAccessToken_def cache_valid_def)

theorem getAccessToken_failure_propagates_witness:
  "\<not> cache_valid tokenCache_initial 1000 \<and>
   getAccessToken tokenCache_initial 1000
     (Inl \<lparr>message = ''Request failed with status code 401'', response_data = None\<rparr>) 1200 =
     (Inl \<lparr>message = ''Request failed with status code 401'', response_data = None\<rparr>,
      tokenCache_initial, [PostAccessTokens])"
  using getAccessToken_failure_propagates
    [of tokenCache_initial 1000
        "\<lparr>message = ''Request failed with status code 401'', response_data = None\<rparr>" 1200]
  by (simp add: cache_valid_def tokenCache_initial_def)

section \<open>Reuse of a cached token\<close>

lemma getAccessToken_hit:
  "cache_valid c now \<Longrightarrow> getAccessToken c now post now' = (Inr (token c), c, [])"
  by (simp add: getAccessToken_def cache_valid_def)

lemma getAccessToken_stores:
  "\<not> cache_valid c now \<Longrightarrow>
   getAccessToken c now (Inr d) now' =
     (Inr (data_token d),
      c\<lparr>token := data_token d, expiresAt := Some (expiry_from now' (data_expiresIn d))\<rparr>,
      [PostAccessTokens])"
  by (simp add: getAccessToken_def cache_valid_def Let_def)

text \<open>
  C1, as stated, fails for the empty token string. Starting from the initial cache, an
  acquisition at clock 1200 that returns the token \<open>""\<close> with a lifetime of 3600 seconds
  stores it with expiresAt 3301200. A second call at clock 2000, well before
  expiresAt, finds a stored token string and still sends a second acquisition request,
  because \<open>tokenCache.token && ...\<close> treats the empty string as no token.
\<close>

theorem getAccessToken_empty_token_refetched:
  "getAccessToken tokenCache_initial 1000
     (Inr \<lparr>data_token = Some '''', data_expiresIn = Some 3600\<rparr>) 1200 =
     (Inr (Some ''''), \<lparr>token = Some '''', expiresAt = Some (Num 3301200)\<rparr>,
      [PostAccessTokens]) \<and>
   now_before 2000 (expiresAt \<lparr>token = Some '''', expiresAt = Some (Num 3301200)\<rparr>) \<and>
   getAccessToken \<lparr>token = Some '''', expiresAt = Some (Num 3301200)\<rparr> 2000
     (Inr \<lparr>data_token = Some ''tok2'', data_expiresIn = Some 3600\<rparr>) 2100 =
     (Inr (Some ''tok2''), \<lparr>token = Some ''tok2'', expiresAt = Some (Num 3302100)\<rparr>,
      [PostAccessTokens])"
  by (simp add: getAccessToken_def tokenCache_initial_def)

text \<open>
  C1, amended. For every cache state in which a non-empty token string \<open>t\<close> is stored and
  the clock is strictly before expiresAt, \<open>getAccessToken\<close> returns \<open>t\<close>, sends no request
  and leaves the cache as it is, whatever the upstream would have answered. Hence a
  non-empty token fetched at clock \<open>n0'\<close> with lifetime \<open>L\<close> is returned, with no second
  acquisition and the cache unchanged, by every later call at a clock \<open>m\<close> before
  \<open>n0' + (L - 300) * 1000\<close>.
\<close>

theorem getAccessToken_reuses_token:
  "(token c = Some t \<and> t \<noteq> [] \<and> now_before now (expiresAt c) \<longrightarrow>
      getAccessToken c now post now' = (Inr (Some t), c, [])) \<and>
   (\<not> cache_valid c0 n0 \<and> t \<noteq> [] \<and> m < n0' + (L - 300) * 1000 \<longrightarrow>
      (let c1 = fst (snd (getAccessToken c0 n0
                  (Inr \<lparr>data_token = Some t, data_expiresIn = Some L\<rparr>) n0'))
       in getAccessToken c1 m post m' = (Inr (Some t), c1, [])))"
proof (intro conjI impI)
  assume "token c = Some t \<and> t \<noteq> [] \<and> now_before now (expiresAt c)"
  then have "cache_valid c now" and "token c = Some t"
    by (simp_all add: cache_valid_def)
  then show "getAccessToken c now post now' = (Inr (Some t), c, [])"
    using getAccessToken_hit [of c now post now'] by simp
next
  assume h: "\<not> cache_valid c0 n0 \<and> t \<noteq> [] \<and> m < n0' + (L - 300) * 1000"
  define c1 where
    "c1 = c0\<lparr>token := Some t, expiresAt := Some (Num (n0' + (L - 300) * 1000))\<rparr>"
  have fetched: "fst (snd (getAccessToken c0 n0
      (Inr \<lparr>data_token = Some t, data_expiresIn = Some L\<rparr>) n0')) = c1"
    using h by (simp add: getAccessToken_stores c1_def)
  have "cache_valid c1 m"
    using h by (simp add: cache_valid_def c1_def)
  then have "getAccessToken c1 m post m' = (Inr (token c1), c1, [])"
    by (rule getAccessToken_hit)
  then have "getAccessToken c1 m post m' = (Inr (Some t), c1, [])"
    by (simp add: c1_def)
  then show "let c1 = fst (snd (getAccessToken c0 n0
                  (Inr \<lparr>data_token = Some t, data_expiresIn = Some L\<rparr>) n0'))
       in getAccessToken c1 m post m' = (Inr (Some t), c1, [])"
    by (simp add: fetched)
qed

theorem getAccessToken_reuses_token_witness:
  "getAccessToken \<lparr>token = Some ''tok'', expiresAt = Some (Num 3301200)\<rparr> 2000
     (Inl \<lparr>message = ''unreachable'', response_data = None\<rparr>) 2100 =
     (Inr (Some ''tok''), \<lparr>token = Some ''tok'', expiresAt = Some (Num 3301200)\<rparr>, []) \<and>
   \<not> cache_valid tokenCache_initial 1000 \<and>
   (let c1 = fst (snd (getAccessToken tokenCache_initial 1000
                  (Inr \<lparr>data_token = Some ''tok'', data_expiresIn = Some 3600\<rparr>) 1200))
    in getAccessToken c1 3301199
         (Inl \<lparr>message = ''unreachable'', response_data = None\<rparr>) 3301250 =
       (Inr (Some ''tok''), c1, []))"
  using getAccessToken_reuses_token
    [of "\<lparr>token = Some ''tok'', expiresAt = Some (Num 3301200)\<rparr>" "''tok''" 2000
        "Inl \<lparr>message = ''unreachable'', response_data = None\<rparr>" 2100
        tokenCache_initial 1000 3301199 1200 3600 3301250]
  by (simp add: cache_valid_def tokenCache_initial_def)

section \<open>Expiry margin\<close>

text \<open>
  C2. When the cache does not answer and the acquisition succeeds, the answer being
  stored at clock \<open>t\<close> and reporting a lifetime of \<open>L\<close> seconds, expiresAt is exactly
  \<open>t + (L - 300) * 1000\<close> milliseconds. From that instant on the cache no longer answers:
  at every clock \<open>n\<close> with \<open>n \<ge> t + (L - 300) * 1000\<close> a call sends a new acquisition
  request, and with a non-empty token the cache answers at every clock before it.
\<close>

theorem getAccessToken_expiry_margin:
  assumes "\<not> cache_valid c t0" and "data_expiresIn d = Some L"
  shows "(let c' = fst (snd (getAccessToken c t0 (Inr d) t)) in
          expiresAt c' = Some (Num (t + (L - 300) * 1000)) \<and>
          (t + (L - 300) * 1000 \<le> n \<longrightarrow>
             \<not> cache_valid c' n \<and>
             snd (snd (getAccessToken c' n post n')) = [PostAccessTokens]) \<and>
          (truthy_str (data_token d) \<longrightarrow>
             cache_valid c' n = (n < t + (L - 300) * 1000)))"
proof -
  define c' where
    "c' = c\<lparr>token := data_token d, expiresAt := Some (Num (t + (L - 300) * 1000))\<rparr>"
  have stored: "fst (snd (getAccessToken c t0 (Inr d) t)) = c'"
    using assms by (simp add: getAccessToken_stores c'_def)
  have a: "expiresAt c' = Some (Num (t + (L - 300) * 1000))"
    by (simp add: c'_def)
  have b: "\<not> cache_valid c' n \<and> snd (snd (getAccessToken c' n post n')) = [PostAccessTokens]"
    if "t + (L - 300) * 1000 \<le> n"
  proof -
    have nv: "\<not> cache_valid c' n"
      using that by (simp add: cache_valid_def c'_def)
    then show ?thesis
      by (cases post) (simp_all add: getAccessToken_def cache_valid_def Let_def)
  qed
  have e: "cache_valid c' n = (n < t + (L - 300) * 1000)" if "truthy_str (data_token d)"
    using that by (simp add: cache_valid_def c'_def)
  show ?thesis
    using a b e by (simp add: stored)
qed

theorem getAccessToken_expiry_margin_witness:
  "\<not> cache_valid tokenCache_initial 1000 \<and>
   (let c' = fst (snd (getAccessToken tokenCache_initial 1000
                 (Inr \<lparr>data_token = Some ''tok'', data_expiresIn = Some 3600\<rparr>) 1200)) in
    expiresAt c' = Some (Num 3301200) \<and>
    \<not> cache_valid c' 3301200 \<and>
    snd (snd (getAccessToken c' 3301200
      (Inr \<lparr>data_token = Some ''tok2'', data_expiresIn = Some 3600\<rparr>) 3301300)) =
      [PostAccessTokens] \<and>
    cache_valid c' 3301199)"
proof -
  have h: "\<not> cache_valid tokenCache_initial 1000"
    by (simp add: cache_valid_def tokenCache_initial_def)
  have d: "data_expiresIn \<lparr>data_token = Some ''tok'', data_expiresIn = Some 3600\<rparr> = Some 3600"
    by simp
  have at: "let c' = fst (snd (getAccessToken tokenCache_initial 1000
                 (Inr \<lparr>data_token = Some ''tok'', data_expiresIn = Some 3600\<rparr>) 1200)) in
    expiresAt c' = Some (Num 3301200) \<and>
    \<not> cache_valid c' 3301200 \<and>
    snd (snd (getAccessToken c' 3301200
      (Inr \<lparr>data_token = Some ''tok2'', data_expiresIn = Some 3600\<rparr>) 3301300)) =
      [PostAccessTokens]"
    using getAccessToken_expiry_margin [OF h d, of 1200 3301200
        "Inr \<lparr>data_token = Some ''tok2'', data_expiresIn = Some 3600\<rparr>" 3301300]
    by (simp add: Let_def)
  have before: "let c' = fst (snd (getAccessToken tokenCache_initial 1000
                 (Inr \<lparr>data_token = Some ''tok'', data_expiresIn = Some 3600\<rparr>) 1200)) in
    cache_valid c' 3301199"
    using getAccessToken_expiry_margin [OF h d, of 1200 3301199
        "Inr \<lparr>data_token = Some ''tok2'', data_expiresIn = Some 3600\<rparr>" 3301300]
    by (simp add: Let_def)
  show ?thesis
    using h at before by (simp add: Let_def)
qed

section \<open>Health report\<close>

text \<open>
  C10, as stated, fails for the empty token string: with the token \<open>""\<close> stored (the
  cache state reached in the counterexample to C1), a token string is in the cache and
  the health body reports \<open>tokenCached: false\<close>.
\<close>

theorem health_empty_token_not_cached:
  "token \<lparr>token = Some '''', expiresAt = Some (Num 3301200)\<rparr> = Some '''' \<and>
   get (health \<lparr>token = Some '''', expiresAt = Some (Num 3301200)\<rparr>) ''tokenCached'' =
     Some (JBool False)"
  by (simp add: health_def)

text \<open>
  C10, amended. The health body reports \<open>tokenCached: true\<close> exactly when a non-empty
  token string is stored. The body does not depend on expiresAt: a stored non-empty token
  whose expiresAt has passed (the cache no longer answers at clock \<open>now\<close>) still yields
  \<open>tokenCached: true\<close>.
\<close>

theorem health_tokenCached_presence:
  "get (health c) ''tokenCached'' = Some (JBool (\<exists>t. token c = Some t \<and> t \<noteq> [])) \<and>
   health (c\<lparr>expiresAt := x\<rparr>) = health c \<and>
   (token c = Some t \<and> t \<noteq> [] \<and> \<not> now_before now (expiresAt c) \<longrightarrow>
      \<not> cache_valid c now \<and> get (health c) ''tokenCached'' = Some (JBool True))"
  by (cases "token c") (simp_all add: health_def cache_valid_def)

theorem health_tokenCached_presence_witness:
  "\<not> now_before 5000000 (expiresAt \<lparr>token = Some ''tok'', expiresAt = Some (Num 3301200)\<rparr>) \<and>
   \<not> cache_valid \<lparr>token = Some ''tok'', expiresAt = Some (Num 3301200)\<rparr> 5000000 \<and>
   get (health \<lparr>token = Some ''tok'', expiresAt = Some (Num 3301200)\<rparr>) ''tokenCached'' =
     Some (JBool True)"
  using health_tokenCached_presence
    [of "\<lparr>token = Some ''tok'', expiresAt = Some (Num 3301200)\<rparr>" _ "''tok''" 5000000]
  by simp

section \<open>Error envelope\<close>

lemma callConnect_acquisition_failure:
  "\<not> cache_valid c now \<Longrightarrow>
   callConnect c now (Inl e) now' endpoint fetched = (Inl e, c, [PostAccessTokens])"
  by (simp add: callConnect_def getAccessToken_def cache_valid_def)

lemma callConnect_fetch_failure:
  "fst (getAccessToken c now post now') = Inr bearer \<Longrightarrow>
   fst (callConnect c now post now' endpoint (Inl e)) = Inl e"
  by (cases "getAccessToken c now post now'") (simp add: callConnect_def)

lemma tickets_handler_failure:
  "tickets_handler (Inl e) =
     \<lparr>status_code = 500,
      body = JObj ([(''success'', JBool False), (''error'', JStr (message e))]
                     @ details_of e)\<rparr>"
  by (simp add: tickets_handler_def)

lemma tickets_handler_details:
  "response_data e = Some d \<Longrightarrow> get (body (tickets_handler (Inl e))) ''details'' = Some d"
  by (simp add: tickets_handler_def)

lemma tickets_active_handler_details:
  "response_data e = Some d \<Longrightarrow>
   get (body (tickets_active_handler getTime now (Inl e))) ''details'' = Some d"
  by (simp add: tickets_active_handler_def)

lemma connect_handler_failure:
  "connect_handler (Inl e) =
     \<lparr>status_code = 500,
      body = JObj [(''success'', JBool False), (''error'', JStr (message e))]\<rparr>"
  by (simp add: connect_handler_def)

text \<open>
  C4. The claim holds for the handlers whose \<open>catch\<close> block sends
  \<open>details: e.response?.data\<close>, and fails for \<open>GET /api/connect/*\<close>, whose \<open>catch\<close> block
  sends only \<open>success\<close> and \<open>error\<close>. Here the token is acquired, the upstream GET is
  rejected with status 404 and a response body, and the proxy handler answers 500 with
  no \<open>details\<close> property, where \<open>GET /api/tickets\<close> passes the upstream body on for the
  same failure.
\<close>

theorem connect_handler_omits_details:
  "(let e = \<lparr>message = ''Request failed with status code 404'',
              response_data = Some (JObj [(''message'', JStr ''Not Found'')])\<rparr>;
        outcome = fst (callConnect tokenCache_initial 1000
                    (Inr \<lparr>data_token = Some ''tok'', data_expiresIn = Some 3600\<rparr>) 1200
                    ''/service-records/1'' (Inl e))
    in outcome = Inl e \<and>
       connect_handler outcome =
         \<lparr>status_code = 500,
          body = JObj [(''success'', JBool False),
                       (''error'', JStr ''Request failed with status code 404'')]\<rparr> \<and>
       get (body (connect_handler outcome)) ''details'' = None \<and>
       get (body (tickets_handler outcome)) ''details'' =
         Some (JObj [(''message'', JStr ''Not Found'')]))"
  by (simp add: callConnect_def getAccessToken_def tokenCache_initial_def Let_def
      connect_handler_def tickets_handler_def)

section \<open>Dictionaries and sorting\<close>

text \<open>The definitions that evaluate an aggregator on a concrete input.\<close>

lemmas eval_defs =
  processAssigneeDistribution_def processTopAdministrators_def processTopEndUsers_def
  processPriorityDistribution_def assigneeName_def increment_def object_entries_def
  array_index_def is_digit_def value_entry_def count_entry_def new_ticket_def
  priorityMap_def order_def value_of_bucket_def object_prototype_def

lemma map_of_set_prop: "map_of (set_prop k v d) = (map_of d)(k \<mapsto> v)"
  by (induction d) (auto simp: fun_eq_iff)

lemma keys_set_prop: "fst ` set (set_prop k v d) = insert k (fst ` set d)"
  by (induction k v d rule: set_prop.induct) auto

lemma distinct_set_prop: "distinct (map fst d) \<Longrightarrow> distinct (map fst (set_prop k v d))"
  by (induction k v d rule: set_prop.induct) (auto simp: keys_set_prop)

lemma map_of_increment:
  "map_of (increment d k) n =
   (if n = k \<and> k \<noteq> ''__proto__'' then Some (next_value k (map_of d k)) else map_of d n)"
  by (simp add: increment_def map_of_set_prop)

lemma distinct_increment: "distinct (map fst d) \<Longrightarrow> distinct (map fst (increment d k))"
  by (simp add: increment_def distinct_set_prop)

lemma keys_increment: "fst ` set (increment d k) \<subseteq> insert k (fst ` set d)"
  by (auto simp: increment_def keys_set_prop)

lemma distinct_tally:
  "distinct (map fst d) \<Longrightarrow> distinct (map fst (foldl increment d ns))"
  by (induction ns arbitrary: d) (simp_all add: distinct_increment)

lemma distinct_tally_empty: "distinct (map fst (foldl increment [] ns))"
  by (rule distinct_tally) simp

lemma keys_tally: "fst ` set (foldl increment d ns) \<subseteq> fst ` set d \<union> set ns"
proof (induction ns arbitrary: d)
  case Nil
  show ?case by simp
next
  case (Cons a ns)
  show ?case
    using Cons.IH [of "increment d a"] keys_increment [of d a] by auto
qed

text \<open>The value under a name depends only on how often the name was counted.\<close>

lemma map_of_tally:
  "map_of (foldl increment d ns) n =
   (if n = ''__proto__'' then map_of d n
    else ((\<lambda>v. Some (next_value n v)) ^^ count_list ns n) (map_of d n))"
proof -
  define step where "step = (\<lambda>v. Some (next_value n v))"
  have swap: "(step ^^ c) (step x) = step ((step ^^ c) x)" for c x
    by (rule funpow_swap1 [symmetric])
  have "map_of (foldl increment d ns) n =
        (if n = ''__proto__'' then map_of d n else (step ^^ count_list ns n) (map_of d n))"
  proof (induction ns arbitrary: d)
    case Nil
    show ?case by simp
  next
    case (Cons a ns)
    have "map_of (increment d a) n =
          (if n = a \<and> a \<noteq> ''__proto__'' then step (map_of d n) else map_of d n)"
      by (simp add: map_of_increment step_def)
    then show ?case
      using swap by (auto simp: Cons.IH)
  qed
  then show ?thesis
    by (simp add: step_def)
qed

lemma counted_further:
  "((\<lambda>v. Some (next_value n v)) ^^ k) (Some (Count c)) = Some (Count (c + k))"
proof -
  define step where "step = (\<lambda>v. Some (next_value n v))"
  have swap: "(step ^^ j) (step x) = step ((step ^^ j) x)" for j x
    by (rule funpow_swap1 [symmetric])
  have "(step ^^ k) (Some (Count c)) = Some (Count (c + k))"
    by (induction k) (simp_all add: step_def)
  then show ?thesis
    by (simp add: step_def)
qed

lemma counted_from_nothing:
  assumes "map_of object_prototype n = None"
  shows "((\<lambda>v. Some (next_value n v)) ^^ k) None = (if k = 0 then None else Some (Count k))"
proof -
  define step where "step = (\<lambda>v. Some (next_value n v))"
  have "(step ^^ k) None = (if k = 0 then None else Some (Count k))"
    using assms by (induction k) (auto simp: step_def)
  then show ?thesis
    by (simp add: step_def)
qed

lemma proto_inherited: "map_of object_prototype ''__proto__'' \<noteq> None"
  by (simp add: object_prototype_def)

lemma count_list_pos: "n \<in> set ns \<Longrightarrow> 0 < count_list ns n"
  by (induction ns) auto

lemma count_list_zero: "n \<notin> set ns \<Longrightarrow> count_list ns n = 0"
  by (induction ns) auto

lemma map_of_tally_plain:
  assumes "map_of object_prototype n = None"
  shows "map_of (foldl increment [] ns) n =
         (if n \<in> set ns then Some (Count (count_list ns n)) else None)"
proof -
  have "n \<noteq> ''__proto__''"
    using assms proto_inherited by auto
  then show ?thesis
    using count_list_pos [of n ns] count_list_zero [of n ns]
    by (auto simp: map_of_tally counted_from_nothing [OF assms])
qed

lemma tally_by_name:
  "foldl (\<lambda>d r. increment d (f r)) d rs = foldl increment d (map f rs)"
  by (induction rs arbitrary: d) simp_all

lemma tally_resolved:
  "foldl (\<lambda>d r. case g r of Some n \<Rightarrow> increment d n | None \<Rightarrow> d) d rs =
   foldl increment d (List.map_filter g rs)"
  by (induction rs arbitrary: d) (simp_all add: List.map_filter_simps split: option.splits)

lemma count_list_map:
  "count_list (map f rs) n = length (filter (\<lambda>r. f r = n) rs)"
  by (induction rs) simp_all

lemma count_list_map_filter:
  "count_list (List.map_filter g rs) n = length (filter (\<lambda>r. g r = Some n) rs)"
  by (induction rs) (simp_all add: List.map_filter_simps split: option.splits)

lemma set_map_filter:
  "n \<in> set (List.map_filter g rs) \<longleftrightarrow> (\<exists>r\<in>set rs. g r = Some n)"
  by (induction rs) (auto simp: List.map_filter_simps split: option.splits)

lemma mset_object_entries: "mset (object_entries d) = mset d"
  by (simp add: object_entries_def case_prod_unfold)

lemma mset_sort_insert: "mset (sort_insert cmp x ys) = add_mset x (mset ys)"
  by (induction ys) simp_all

lemma mset_js_sort: "mset (js_sort cmp xs) = mset xs"
  by (induction xs) (simp_all add: mset_sort_insert)

lemma set_js_sort: "set (js_sort cmp xs) = set xs"
  by (metis mset_js_sort set_mset_mset)

lemma sort_insert_map:
  "sort_insert cmp (f x) (map f ys) = map f (sort_insert (\<lambda>a b. cmp (f a) (f b)) x ys)"
  by (induction ys) simp_all

lemma js_sort_map:
  "js_sort cmp (map f xs) = map f (js_sort (\<lambda>a b. cmp (f a) (f b)) xs)"
  by (induction xs) (simp_all add: sort_insert_map)

lemma sort_insert_key:
  assumes "\<And>b. b \<in> set ys \<Longrightarrow> keeps_order (cmp x b) = (key x \<le> key b)"
  shows "sort_insert cmp x ys = insort_key key x ys"
  using assms by (induction ys) simp_all

lemma js_sort_key:
  assumes "\<And>a b. a \<in> set xs \<Longrightarrow> b \<in> set xs \<Longrightarrow> keeps_order (cmp a b) = (key a \<le> key b)"
  shows "js_sort cmp xs = sort_key key xs"
  using assms
proof (induction xs)
  case Nil
  show ?case by simp
next
  case (Cons x xs)
  have tail: "js_sort cmp xs = sort_key key xs"
    using Cons.prems by (intro Cons.IH) simp_all
  have "sort_insert cmp x (sort_key key xs) = insort_key key x (sort_key key xs)"
    using Cons.prems by (intro sort_insert_key) simp_all
  then show ?case
    by (simp add: tail)
qed

lemma map_of_mset_cong:
  assumes "distinct (map fst xs)" and "mset ys = mset xs"
  shows "map_of ys = map_of xs"
proof -
  have "mset (map fst ys) = mset (map fst xs)"
    using assms(2) by simp
  then have "distinct (map fst ys)"
    using assms(1) by (metis mset_eq_imp_distinct_iff)
  moreover have "set ys = set xs"
    using assms(2) by (metis set_mset_mset)
  ultimately show ?thesis
    using assms(1) by (simp add: map_of_inject_set)
qed

text \<open>The entries of a counting dictionary after \<open>Object.entries\<close> and a sort.\<close>

lemma mset_ranked: "mset (js_sort cmp (object_entries d)) = mset d"
  by (simp add: mset_js_sort mset_object_entries)

lemma map_of_ranked:
  "map_of (js_sort cmp (object_entries (foldl increment [] ns))) =
   map_of (foldl increment [] ns)"
  by (rule map_of_mset_cong) (simp_all add: distinct_tally_empty mset_ranked)

lemma ranked_distinct:
  "distinct (map fst (js_sort cmp (object_entries (foldl increment [] ns))))"
proof -
  let ?l = "js_sort cmp (object_entries (foldl increment [] ns))"
  have "mset (map fst ?l) = mset (map fst (foldl increment [] ns))"
    by (simp add: mset_ranked)
  then show ?thesis
    using distinct_tally_empty [of ns] by (metis mset_eq_imp_distinct_iff)
qed

section \<open>Buckets of the assignee distribution\<close>

lemma value_entry_props:
  "get (value_entry (n, v)) ''name'' = Some (JStr n)"
  "get (value_entry (n, v)) ''value'' = Some (json_of v)"
  by (simp_all add: value_entry_def)

lemma count_entry_props:
  "get (count_entry (n, v)) ''name'' = Some (JStr n)"
  "get (count_entry (n, v)) ''count'' = Some (json_of v)"
  "get (count_entry (n, v)) ''value'' = None"
  by (simp_all add: count_entry_def)

lemma assignee_distribution_form:
  "processAssigneeDistribution rs m =
   map value_entry
     (js_sort (\<lambda>a b. num_minus (get (value_entry b) ''value'') (get (value_entry a) ''value''))
        (object_entries (foldl increment [] (map (assigneeName m) rs))))"
  unfolding processAssigneeDistribution_def js_sort_map tally_by_name [of "assigneeName m"]
  by (rule refl)

lemma priority_distribution_form:
  "processPriorityDistribution rs =
   map value_entry
     (js_sort (\<lambda>a b. Some (order_or_999 (get (value_entry a) ''name'')
                           - order_or_999 (get (value_entry b) ''name'')))
        (object_entries (foldl increment [] (map (\<lambda>r. priority_name (priority r)) rs))))"
  unfolding processPriorityDistribution_def js_sort_map
    tally_by_name [of "\<lambda>r. priority_name (priority r)"]
  by (rule refl)

lemma top_administrators_form:
  "processTopAdministrators rs m =
   take 4 (map count_entry
     (js_sort (\<lambda>a b. num_minus (get (count_entry b) ''count'') (get (count_entry a) ''count''))
        (object_entries
           (foldl increment [] (List.map_filter (\<lambda>r. resolved m (assignee r)) rs)))))"
  unfolding processTopAdministrators_def js_sort_map
    tally_resolved [of "\<lambda>r. resolved m (assignee r)"]
  by (rule refl)

lemma top_end_users_form:
  "processTopEndUsers rs m =
   take 5 (map count_entry
     (js_sort (\<lambda>a b. num_minus (get (count_entry b) ''count'') (get (count_entry a) ''count''))
        (object_entries
           (foldl increment [] (List.map_filter (\<lambda>r. resolved m (requestUser r)) rs)))))"
  unfolding processTopEndUsers_def js_sort_map
    tally_resolved [of "\<lambda>r. resolved m (requestUser r)"]
  by (rule refl)

lemma find_value_entry:
  "find (\<lambda>e. get e ''name'' = Some (JStr n)) (map value_entry ps) =
   map_option value_entry (find (\<lambda>p. fst p = n) ps)"
  by (induction ps) (auto simp: value_entry_props)

lemma find_by_key:
  "find (\<lambda>p. fst p = n) ps = map_option (Pair n) (map_of ps n)"
  by (induction ps) auto

lemma bucket_of_entries:
  "value_of_bucket (map value_entry ps) n = map_option json_of (map_of ps n)"
  by (cases "map_of ps n")
     (simp_all add: value_of_bucket_def find_value_entry find_by_key value_entry_props)

lemma assignee_bucket:
  "value_of_bucket (processAssigneeDistribution rs m) n =
   map_option json_of (map_of (foldl increment [] (map (assigneeName m) rs)) n)"
  by (simp add: assignee_distribution_form bucket_of_entries map_of_ranked)

lemma unassigned_plain: "map_of object_prototype ''Unassigned'' = None"
  by (simp add: object_prototype_def)

lemma unresolved_name:
  "assignee r = None \<or> (\<exists>i. assignee r = Some i \<and> m i = None) \<Longrightarrow>
   resolved m (assignee r) = None"
  by auto

lemma top_administrators_skip:
  "resolved m (assignee r) = None \<Longrightarrow>
   processTopAdministrators (xs @ r # ys) m = processTopAdministrators (xs @ ys) m"
  by (simp add: processTopAdministrators_def)

text \<open>
  C7. Let \<open>r\<close> be a record whose assignee is absent or has no entry in the agent
  directory, anywhere in a record list. In the assignee distribution \<open>r\<close> is counted in
  the bucket \<open>Unassigned\<close>: with \<open>r\<close> the value of that bucket is one more than without
  it (one, when there was no such bucket), and every other bucket is as it was. In the
  top-administrators ranking \<open>r\<close> is in no bucket: the ranking with \<open>r\<close> is the ranking
  without it.
\<close>

theorem unresolved_assignee_buckets:
  assumes "assignee r = None \<or> (\<exists>i. assignee r = Some i \<and> agentMap i = None)"
  shows "value_of_bucket (processAssigneeDistribution (xs @ r # ys) agentMap) ''Unassigned'' =
           Some (JNum (1 + (case value_of_bucket (processAssigneeDistribution (xs @ ys) agentMap)
                                   ''Unassigned'' of
                              Some (JNum c) \<Rightarrow> c | _ \<Rightarrow> 0))) \<and>
         (\<forall>n. n \<noteq> ''Unassigned'' \<longrightarrow>
            value_of_bucket (processAssigneeDistribution (xs @ r # ys) agentMap) n =
            value_of_bucket (processAssigneeDistribution (xs @ ys) agentMap) n) \<and>
         processTopAdministrators (xs @ r # ys) agentMap =
           processTopAdministrators (xs @ ys) agentMap"
proof -
  have un: "resolved agentMap (assignee r) = None"
    using assms by (rule unresolved_name)
  then have name: "assigneeName agentMap r = ''Unassigned''"
    by (simp add: assigneeName_def)
  let ?n1 = "map (assigneeName agentMap) (xs @ r # ys)"
  let ?n0 = "map (assigneeName agentMap) (xs @ ys)"
  have with_r:
    "value_of_bucket (processAssigneeDistribution (xs @ r # ys) agentMap) ''Unassigned'' =
     Some (JNum (of_nat (count_list ?n1 ''Unassigned'')))"
    unfolding assignee_bucket map_of_tally_plain [OF unassigned_plain]
    using name by simp
  have without_r:
    "value_of_bucket (processAssigneeDistribution (xs @ ys) agentMap) ''Unassigned'' =
     (if ''Unassigned'' \<in> set ?n0
      then Some (JNum (of_nat (count_list ?n0 ''Unassigned''))) else None)"
    unfolding assignee_bucket map_of_tally_plain [OF unassigned_plain]
    by simp
  have one_more: "count_list ?n1 ''Unassigned'' = count_list ?n0 ''Unassigned'' + 1"
    using name by simp
  have none_yet: "count_list ?n0 ''Unassigned'' = 0" if "''Unassigned'' \<notin> set ?n0"
    using that by (rule count_list_zero)
  have a: "value_of_bucket (processAssigneeDistribution (xs @ r # ys) agentMap) ''Unassigned'' =
           Some (JNum (1 + (case value_of_bucket (processAssigneeDistribution (xs @ ys) agentMap)
                                   ''Unassigned'' of
                              Some (JNum c) \<Rightarrow> c | _ \<Rightarrow> 0)))"
    unfolding with_r without_r one_more
    using none_yet by (cases "''Unassigned'' \<in> set ?n0") simp_all
  have b: "value_of_bucket (processAssigneeDistribution (xs @ r # ys) agentMap) n =
           value_of_bucket (processAssigneeDistribution (xs @ ys) agentMap) n"
    if "n \<noteq> ''Unassigned''" for n
    unfolding assignee_bucket map_of_tally [of "[]"]
    using name that by simp
  show ?thesis
    using a b top_administrators_skip [OF un] by blast
qed

theorem unresolved_assignee_buckets_witness:
  "map_of [(1, ''Ann'')] (9::int) = None \<and>
   value_of_bucket (processAssigneeDistribution
       ([new_ticket\<lparr>assignee := Some 1\<rparr>, new_ticket] @ new_ticket\<lparr>assignee := Some 9\<rparr> # [])
       (map_of [(1, ''Ann'')])) ''Unassigned'' = Some (JNum 2) \<and>
   value_of_bucket (processAssigneeDistribution
       ([new_ticket\<lparr>assignee := Some 1\<rparr>, new_ticket] @ [])
       (map_of [(1, ''Ann'')])) ''Unassigned'' = Some (JNum 1) \<and>
   processTopAdministrators
       ([new_ticket\<lparr>assignee := Some 1\<rparr>, new_ticket] @ new_ticket\<lparr>assignee := Some 9\<rparr> # [])
       (map_of [(1, ''Ann'')]) = [count_entry (''Ann'', Count 1)] \<and>
   processTopAdministrators
       ([new_ticket\<lparr>assignee := Some 1\<rparr>, new_ticket] @ [])
       (map_of [(1, ''Ann'')]) = [count_entry (''Ann'', Count 1)]"
  using unresolved_assignee_buckets
    [of "new_ticket\<lparr>assignee := Some 9\<rparr>" "map_of [(1, ''Ann'')]"
        "[new_ticket\<lparr>assignee := Some 1\<rparr>, new_ticket]" "[]"]
  by (simp add: eval_defs)

section \<open>Counting names that are not inherited\<close>

lemma ranked_member:
  assumes "\<forall>n \<in> set ns. map_of object_prototype n = None"
    and "p \<in> set (js_sort cmp (object_entries (foldl increment [] ns)))"
  shows "fst p \<in> set ns \<and> snd p = Count (count_list ns (fst p))"
proof -
  let ?d = "foldl increment [] ns"
  have "p \<in> set ?d"
    using assms(2) by (metis mset_ranked set_mset_mset)
  then have key: "fst p \<in> set ns"
    using keys_tally [of "[]" ns] by force
  have "map_of (js_sort cmp (object_entries ?d)) (fst p) = Some (snd p)"
    using assms(2) ranked_distinct [of cmp ns] by simp
  then have "map_of ?d (fst p) = Some (snd p)"
    by (simp add: map_of_ranked)
  then show ?thesis
    using key assms(1) by (simp add: map_of_tally_plain)
qed

lemma ranked_complete:
  assumes "map_of object_prototype n = None" and "n \<in> set ns"
  shows "(n, Count (count_list ns n)) \<in> set (js_sort cmp (object_entries (foldl increment [] ns)))"
proof -
  have "map_of (js_sort cmp (object_entries (foldl increment [] ns))) n =
        Some (Count (count_list ns n))"
    using assms by (simp add: map_of_ranked map_of_tally_plain)
  then show ?thesis
    by (rule map_of_SomeD)
qed

section \<open>Total of the assignee distribution\<close>

text \<open>
  C8. The claim fails on the code when a display name is also the name of a property
  that the counting dictionary inherits. For one record assigned to an agent whose
  display name is \<open>constructor\<close>, the read \<open>distribution[assigneeName]\<close> finds the
  inherited function, \<open>+ 1\<close> makes a string of it, and the distribution is one entry
  whose \<open>value\<close> is that string: the values have no numeric sum. For the display name
  \<open>__proto__\<close> the assignment stores nothing, the distribution is empty and the sum is
  0. In both cases the record list has length 1.
\<close>

theorem assignee_distribution_inherited_name:
  "processAssigneeDistribution [new_ticket\<lparr>assignee := Some 1\<rparr>]
     (map_of [(1, ''constructor'')]) =
     [JObj [(''name'', JStr ''constructor''),
            (''value'', JStr ''function Object() { [native code] }1'')]] \<and>
   value_sum (processAssigneeDistribution [new_ticket\<lparr>assignee := Some 1\<rparr>]
     (map_of [(1, ''constructor'')])) = None \<and>
   processAssigneeDistribution [new_ticket\<lparr>assignee := Some 1\<rparr>]
     (map_of [(1, ''__proto__'')]) = [] \<and>
   value_sum (processAssigneeDistribution [new_ticket\<lparr>assignee := Some 1\<rparr>]
     (map_of [(1, ''__proto__'')])) = Some 0 \<and>
   length [new_ticket\<lparr>assignee := Some 1\<rparr>] = 1"
  by (simp add: eval_defs)

text \<open>When no record falls into a bucket with an inherited name, the values are numbers
  and their sum is the number of records.\<close>

lemma value_sum_counts:
  assumes "\<forall>p \<in> set ps. \<exists>c. snd p = Count c"
  shows "value_sum (map value_entry ps) =
         Some (of_nat (sum_list (map (\<lambda>p. count_of (snd p)) ps)))"
  using assms by (induction ps) (auto simp: value_entry_def)

lemma assignee_distribution_total_plain:
  assumes plain: "\<forall>r \<in> set records. map_of object_prototype (assigneeName agentMap r) = None"
  shows "value_sum (processAssigneeDistribution records agentMap) =
         Some (of_nat (length records))"
proof -
  define ns where "ns = map (assigneeName agentMap) records"
  define l where
    "l = js_sort (\<lambda>a b. num_minus (get (value_entry b) ''value'') (get (value_entry a) ''value''))
           (object_entries (foldl increment [] ns))"
  have plain_ns: "\<forall>n \<in> set ns. map_of object_prototype n = None"
    using plain by (simp add: ns_def)
  have member: "fst p \<in> set ns \<and> snd p = Count (count_list ns (fst p))" if "p \<in> set l" for p
    using that ranked_member [OF plain_ns] by (simp add: l_def)
  have keys: "set (map fst l) = set ns"
  proof (intro set_eqI iffI)
    fix n assume "n \<in> set (map fst l)"
    then show "n \<in> set ns" using member by auto
  next
    fix n assume n: "n \<in> set ns"
    then have "(n, Count (count_list ns n)) \<in> set l"
      unfolding l_def using plain_ns by (intro ranked_complete) simp_all
    then show "n \<in> set (map fst l)" by force
  qed
  have dist: "distinct (map fst l)"
    unfolding l_def by (rule ranked_distinct)
  have "sum_list (map (\<lambda>p. count_of (snd p)) l) = sum_list (map (\<lambda>p. count_list ns (fst p)) l)"
    by (rule arg_cong [where f = sum_list], rule map_cong [OF refl]) (simp add: member)
  also have "\<dots> = sum_list (map (count_list ns) (map fst l))"
    by (simp add: comp_def)
  also have "\<dots> = sum (count_list ns) (set (map fst l))"
    using dist by (rule sum_list_distinct_conv_sum_set)
  also have "\<dots> = length ns"
    unfolding keys by (rule sum_count_set) simp_all
  finally have total: "sum_list (map (\<lambda>p. count_of (snd p)) l) = length records"
    by (simp add: ns_def)
  have "value_sum (map value_entry l) = Some (of_nat (sum_list (map (\<lambda>p. count_of (snd p)) l)))"
    using member by (intro value_sum_counts) blast
  then show ?thesis
    unfolding assignee_distribution_form ns_def [symmetric] l_def [symmetric]
    by (simp add: total)
qed

section \<open>Top-N rankings\<close>

text \<open>
  C5, as stated, fails: the elements of a ranking are not \<open>{name, value}\<close> pairs. For one
  record assigned to the agent Ann, the ranking is \<open>[{name: 'Ann', count: 1}]\<close>; its
  element has no \<open>value\<close> property, and the assignee distribution of the same input is
  \<open>[{name: 'Ann', value: 1}]\<close>.
\<close>

theorem top_administrators_count_key:
  "processTopAdministrators [new_ticket\<lparr>assignee := Some 1\<rparr>] (map_of [(1, ''Ann'')]) =
     [JObj [(''name'', JStr ''Ann''), (''count'', JNum 1)]] \<and>
   get (JObj [(''name'', JStr ''Ann''), (''count'', JNum 1)]) ''value'' = None \<and>
   processAssigneeDistribution [new_ticket\<lparr>assignee := Some 1\<rparr>] (map_of [(1, ''Ann'')]) =
     [JObj [(''name'', JStr ''Ann''), (''value'', JNum 1)]]"
  by (simp add: eval_defs)

lemma count_cmp:
  "keeps_order (num_minus (get (count_entry (nb, Count cb)) ''count'')
                          (get (count_entry (na, Count ca)) ''count'')) =
   (- int ca \<le> - int cb)"
  by (simp add: count_entry_props)

lemma ranked_by_count:
  fixes ns :: "string list"
  assumes "\<forall>n \<in> set ns. map_of object_prototype n = None"
  defines "cmp \<equiv> (\<lambda>a b. num_minus (get (count_entry b) ''count'') (get (count_entry a) ''count''))"
  shows "sorted_wrt (\<lambda>a b. count_of (snd b) \<le> count_of (snd a))
           (js_sort cmp (object_entries (foldl increment [] ns)))"
proof -
  let ?e = "object_entries (foldl increment [] ns)"
  have counts: "\<exists>c. snd p = Count c" if "p \<in> set ?e" for p
  proof -
    have "p \<in> set (js_sort cmp ?e)"
      using that by (simp add: set_js_sort)
    then show ?thesis
      using ranked_member [OF assms(1)] by blast
  qed
  have "keeps_order (cmp a b) = (- int (count_of (snd a)) \<le> - int (count_of (snd b)))"
    if ab: "a \<in> set ?e" "b \<in> set ?e" for a b
  proof -
    obtain na va nb vb where a: "a = (na, va)" and b: "b = (nb, vb)"
      by (cases a, cases b) blast
    obtain ca cb where va: "va = Count ca" and vb: "vb = Count cb"
      using counts [OF ab(1)] counts [OF ab(2)] a b by auto
    show ?thesis
      unfolding cmp_def a b va vb by (simp add: count_entry_props)
  qed
  then have "js_sort cmp ?e = sort_key (\<lambda>p. - int (count_of (snd p))) ?e"
    by (rule js_sort_key)
  moreover have "sorted (map (\<lambda>p. - int (count_of (snd p)))
                   (sort_key (\<lambda>p. - int (count_of (snd p))) ?e))"
    by (rule sorted_sort_key)
  ultimately show ?thesis
    by (simp add: sorted_map)
qed

lemma top_of_ranking:
  fixes ns :: "string list"
  assumes plain: "\<forall>n \<in> set ns. map_of object_prototype n = None"
  defines "l \<equiv> js_sort (\<lambda>a b. num_minus (get (count_entry b) ''count'')
                                        (get (count_entry a) ''count''))
                  (object_entries (foldl increment [] ns))"
  shows "sorted_wrt (\<lambda>a b. count_of (snd b) \<le> count_of (snd a)) (take N l) \<and>
         distinct (map fst (take N l)) \<and>
         (\<forall>p \<in> set (take N l). fst p \<in> set ns \<and> snd p = Count (count_list ns (fst p))) \<and>
         (\<forall>n \<in> set ns. (n, Count (count_list ns n)) \<in> set (take N l) \<or>
            (length (take N l) = N \<and>
             (\<forall>p \<in> set (take N l). count_list ns n \<le> count_of (snd p))))"
proof (intro conjI ballI)
  have desc: "sorted_wrt (\<lambda>a b. count_of (snd b) \<le> count_of (snd a)) l"
    unfolding l_def using plain by (rule ranked_by_count)
  then have split: "sorted_wrt (\<lambda>a b. count_of (snd b) \<le> count_of (snd a)) (take N l @ drop N l)"
    by simp
  then show "sorted_wrt (\<lambda>a b. count_of (snd b) \<le> count_of (snd a)) (take N l)"
    unfolding sorted_wrt_append by blast
  have "distinct (map fst l)"
    unfolding l_def by (rule ranked_distinct)
  then show "distinct (map fst (take N l))"
    by (simp add: take_map [symmetric] distinct_take)
  show "fst p \<in> set ns" if "p \<in> set (take N l)" for p
    using that ranked_member [OF plain, of p] in_set_takeD [of p N l]
    by (simp add: l_def)
  show "snd p = Count (count_list ns (fst p))" if "p \<in> set (take N l)" for p
    using that ranked_member [OF plain, of p] in_set_takeD [of p N l]
    by (simp add: l_def)
  show "(n, Count (count_list ns n)) \<in> set (take N l) \<or>
        (length (take N l) = N \<and>
         (\<forall>p \<in> set (take N l). count_list ns n \<le> count_of (snd p)))"
    if "n \<in> set ns" for n
  proof -
    have "(n, Count (count_list ns n)) \<in> set l"
      unfolding l_def using plain that by (intro ranked_complete) simp_all
    then have "(n, Count (count_list ns n)) \<in> set (take N l) \<or>
               (n, Count (count_list ns n)) \<in> set (drop N l)"
      by (metis Un_iff append_take_drop_id set_append)
    then show ?thesis
    proof
      assume "(n, Count (count_list ns n)) \<in> set (take N l)"
      then show ?thesis by blast
    next
      assume d: "(n, Count (count_list ns n)) \<in> set (drop N l)"
      then have "drop N l \<noteq> []" by auto
      then have "N < length l" by simp
      then have len: "length (take N l) = N" by simp
      have "count_list ns n \<le> count_of (snd p)" if "p \<in> set (take N l)" for p
        using split that d unfolding sorted_wrt_append by fastforce
      then show ?thesis using len by blast
    qed
  qed
qed

lemma ranking_generic:
  fixes g :: "ticket \<Rightarrow> string option"
  assumes plain: "\<forall>r \<in> set records. \<forall>n. g r = Some n \<longrightarrow> map_of object_prototype n = None"
  shows "\<exists>ps. take N (map count_entry
             (js_sort (\<lambda>a b. num_minus (get (count_entry b) ''count'')
                                        (get (count_entry a) ''count''))
                (object_entries (foldl increment [] (List.map_filter g records))))) =
           map (\<lambda>(n, c). JObj [(''name'', JStr n), (''count'', JNum (of_nat c))]) ps \<and>
      length ps \<le> N \<and>
      sorted_wrt (\<lambda>a b. snd b \<le> snd a) ps \<and>
      distinct (map fst ps) \<and>
      (\<forall>p \<in> set ps. 0 < snd p \<and> snd p = length (filter (\<lambda>r. g r = Some (fst p)) records)) \<and>
      (\<forall>r \<in> set records. \<forall>n. g r = Some n \<longrightarrow>
         n \<in> fst ` set ps \<or>
         (length ps = N \<and>
          (\<forall>p \<in> set ps. length (filter (\<lambda>r. g r = Some n) records) \<le> snd p)))"
proof -
  define ns where "ns = List.map_filter g records"
  define l where
    "l = take N (js_sort (\<lambda>a b. num_minus (get (count_entry b) ''count'')
                                          (get (count_entry a) ''count''))
                  (object_entries (foldl increment [] ns)))"
  define ps where "ps = map (\<lambda>p. (fst p, count_of (snd p))) l"
  have plain_ns: "\<forall>n \<in> set ns. map_of object_prototype n = None"
    using plain by (auto simp: ns_def set_map_filter)
  have counted: "count_list ns n = length (filter (\<lambda>r. g r = Some n) records)" for n
    by (simp add: ns_def count_list_map_filter)
  note top = top_of_ranking [OF plain_ns, of N, folded l_def]
  have member: "fst p \<in> set ns \<and> snd p = Count (count_list ns (fst p))"
    if "p \<in> set l" for p
    using top that by blast
  have entry: "count_entry p =
          (\<lambda>(n, c). JObj [(''name'', JStr n), (''count'', JNum (of_nat c))])
            (fst p, count_of (snd p))"
    if "p \<in> set l" for p
    using member [OF that] by (cases p) (simp add: count_entry_def)
  have "map count_entry l =
        map ((\<lambda>(n, c). JObj [(''name'', JStr n), (''count'', JNum (of_nat c))])
               \<circ> (\<lambda>p. (fst p, count_of (snd p)))) l"
    by (rule map_cong [OF refl]) (simp only: entry comp_def)
  then have 1: "take N (map count_entry
             (js_sort (\<lambda>a b. num_minus (get (count_entry b) ''count'')
                                        (get (count_entry a) ''count''))
                (object_entries (foldl increment [] ns)))) =
           map (\<lambda>(n, c). JObj [(''name'', JStr n), (''count'', JNum (of_nat c))]) ps"
    unfolding take_map ps_def l_def [symmetric] map_map .
  have 2: "length ps \<le> N"
    by (simp add: ps_def l_def)
  have "sorted_wrt (\<lambda>a b. count_of (snd b) \<le> count_of (snd a)) l"
    using top by blast
  then have 3: "sorted_wrt (\<lambda>a b. snd b \<le> snd a) ps"
    by (simp add: ps_def sorted_wrt_map)
  have "distinct (map fst l)"
    using top by blast
  then have 4: "distinct (map fst ps)"
    by (simp add: ps_def comp_def)
  have 5: "0 < snd q \<and> snd q = length (filter (\<lambda>r. g r = Some (fst q)) records)"
    if "q \<in> set ps" for q
  proof -
    have "q \<in> (\<lambda>p. (fst p, count_of (snd p))) ` set l"
      using that by (simp add: ps_def)
    then obtain p where p: "p \<in> set l" and q: "q = (fst p, count_of (snd p))"
      by blast
    have "fst p \<in> set ns" and "snd p = Count (count_list ns (fst p))"
      using member [OF p] by blast+
    then show ?thesis
      using count_list_pos [of "fst p" ns] by (simp add: q counted)
  qed
  have 6: "n \<in> fst ` set ps \<or>
         (length ps = N \<and>
          (\<forall>q \<in> set ps. length (filter (\<lambda>r. g r = Some n) records) \<le> snd q))"
    if "r \<in> set records" and "g r = Some n" for r n
  proof -
    have "n \<in> set ns"
      using that by (auto simp: ns_def set_map_filter)
    then have "(n, Count (count_list ns n)) \<in> set l \<or>
          (length l = N \<and> (\<forall>p \<in> set l. count_list ns n \<le> count_of (snd p)))"
      using top by blast
    then show ?thesis
    proof
      assume "(n, Count (count_list ns n)) \<in> set l"
      then have "fst (n, Count (count_list ns n)) \<in> fst ` set l"
        by (rule imageI)
      then have "n \<in> fst ` set ps"
        by (simp add: ps_def image_image)
      then show ?thesis ..
    next
      assume full: "length l = N \<and> (\<forall>p \<in> set l. count_list ns n \<le> count_of (snd p))"
      then have "length ps = N"
        by (simp add: ps_def)
      moreover have "length (filter (\<lambda>r. g r = Some n) records) \<le> snd q"
        if "q \<in> set ps" for q
      proof -
        have "q \<in> (\<lambda>p. (fst p, count_of (snd p))) ` set l"
          using that by (simp add: ps_def)
        then obtain p where "p \<in> set l" and "q = (fst p, count_of (snd p))"
          by blast
        then show ?thesis
          using full by (simp add: counted [symmetric])
      qed
      ultimately show ?thesis by blast
    qed
  qed
  show ?thesis
    unfolding ns_def [symmetric]
    using 1 2 3 4 5 6 by blast
qed

lemma ranking_shape:
  assumes "e \<in> set (take N (map count_entry ps))"
  shows "\<exists>n c. e = JObj [(''name'', JStr n), (''count'', c)]"
proof -
  have "e \<in> set (map count_entry ps)"
    using assms by (rule in_set_takeD)
  then obtain p where "e = count_entry p"
    by auto
  then show ?thesis
    by (cases p) (simp add: count_entry_def)
qed

text \<open>
  C5, amended. Every element of a top-N ranking (top administrators, N = 4; top end
  users, N = 5) is a \<open>{name, count}\<close> pair, and there are at most N of them. When no
  record resolves to a display name that the counting dictionary inherits from
  \<open>Object.prototype\<close>, \<open>count\<close> is the number of records that resolve to that name and
  is positive; names are not repeated; the elements are in descending order of \<open>count\<close>;
  and a resolved name that is not in the ranking was cut off by the truncation: the
  ranking then has N elements, each with a \<open>count\<close> at least that of the missing name.
  Nothing is said here of the counts and the order when such a name occurs.
\<close>

theorem top_rankings_shape:
  "(\<forall>e \<in> set (processTopAdministrators records agentMap).
      \<exists>n c. e = JObj [(''name'', JStr n), (''count'', c)]) \<and>
   length (processTopAdministrators records agentMap) \<le> 4 \<and>
   (\<forall>e \<in> set (processTopEndUsers records endUserMap).
      \<exists>n c. e = JObj [(''name'', JStr n), (''count'', c)]) \<and>
   length (processTopEndUsers records endUserMap) \<le> 5 \<and>
   ((\<forall>r \<in> set records. \<forall>n. resolved agentMap (assignee r) = Some n \<longrightarrow>
        map_of object_prototype n = None) \<longrightarrow>
    (\<exists>ps. processTopAdministrators records agentMap =
            map (\<lambda>(n, c). JObj [(''name'', JStr n), (''count'', JNum (of_nat c))]) ps \<and>
      length ps \<le> 4 \<and>
      sorted_wrt (\<lambda>a b. snd b \<le> snd a) ps \<and>
      distinct (map fst ps) \<and>
      (\<forall>p \<in> set ps. 0 < snd p \<and>
         snd p = length (filter (\<lambda>r. resolved agentMap (assignee r) = Some (fst p)) records)) \<and>
      (\<forall>r \<in> set records. \<forall>n. resolved agentMap (assignee r) = Some n \<longrightarrow>
         n \<in> fst ` set ps \<or>
         (length ps = 4 \<and>
          (\<forall>p \<in> set ps.
             length (filter (\<lambda>r. resolved agentMap (assignee r) = Some n) records) \<le> snd p))))) \<and>
   ((\<forall>r \<in> set records. \<forall>n. resolved endUserMap (requestUser r) = Some n \<longrightarrow>
        map_of object_prototype n = None) \<longrightarrow>
    (\<exists>ps. processTopEndUsers records endUserMap =
            map (\<lambda>(n, c). JObj [(''name'', JStr n), (''count'', JNum (of_nat c))]) ps \<and>
      length ps \<le> 5 \<and>
      sorted_wrt (\<lambda>a b. snd b \<le> snd a) ps \<and>
      distinct (map fst ps) \<and>
      (\<forall>p \<in> set ps. 0 < snd p \<and>
         snd p = length (filter (\<lambda>r. resolved endUserMap (requestUser r) = Some (fst p)) records)) \<and>
      (\<forall>r \<in> set records. \<forall>n. resolved endUserMap (requestUser r) = Some n \<longrightarrow>
         n \<in> fst ` set ps \<or>
         (length ps = 5 \<and>
          (\<forall>p \<in> set ps.
             length (filter (\<lambda>r. resolved endUserMap (requestUser r) = Some n) records) \<le> snd p)))))"
proof (intro conjI impI)
  show "\<forall>e \<in> set (processTopAdministrators records agentMap).
      \<exists>n c. e = JObj [(''name'', JStr n), (''count'', c)]"
    unfolding top_administrators_form using ranking_shape by blast
  show "length (processTopAdministrators records agentMap) \<le> 4"
    unfolding top_administrators_form by simp
  show "\<forall>e \<in> set (processTopEndUsers records endUserMap).
      \<exists>n c. e = JObj [(''name'', JStr n), (''count'', c)]"
    unfolding top_end_users_form using ranking_shape by blast
  show "length (processTopEndUsers records endUserMap) \<le> 5"
    unfolding top_end_users_form by simp
next
  assume "\<forall>r \<in> set records. \<forall>n. resolved agentMap (assignee r) = Some n \<longrightarrow>
        map_of object_prototype n = None"
  then show "\<exists>ps. processTopAdministrators records agentMap =
            map (\<lambda>(n, c). JObj [(''name'', JStr n), (''count'', JNum (of_nat c))]) ps \<and>
      length ps \<le> 4 \<and>
      sorted_wrt (\<lambda>a b. snd b \<le> snd a) ps \<and>
      distinct (map fst ps) \<and>
      (\<forall>p \<in> set ps. 0 < snd p \<and>
         snd p = length (filter (\<lambda>r. resolved agentMap (assignee r) = Some (fst p)) records)) \<and>
      (\<forall>r \<in> set records. \<forall>n. resolved agentMap (assignee r) = Some n \<longrightarrow>
         n \<in> fst ` set ps \<or>
         (length ps = 4 \<and>
          (\<forall>p \<in> set ps.
             length (filter (\<lambda>r. resolved agentMap (assignee r) = Some n) records) \<le> snd p)))"
    unfolding top_administrators_form
    by (rule ranking_generic [where g = "\<lambda>r. resolved agentMap (assignee r)"])
next
  assume "\<forall>r \<in> set records. \<forall>n. resolved endUserMap (requestUser r) = Some n \<longrightarrow>
        map_of object_prototype n = None"
  then show "\<exists>ps. processTopEndUsers records endUserMap =
            map (\<lambda>(n, c). JObj [(''name'', JStr n), (''count'', JNum (of_nat c))]) ps \<and>
      length ps \<le> 5 \<and>
      sorted_wrt (\<lambda>a b. snd b \<le> snd a) ps \<and>
      distinct (map fst ps) \<and>
      (\<forall>p \<in> set ps. 0 < snd p \<and>
         snd p = length (filter (\<lambda>r. resolved endUserMap (requestUser r) = Some (fst p)) records)) \<and>
      (\<forall>r \<in> set records. \<forall>n. resolved endUserMap (requestUser r) = Some n \<longrightarrow>
         n \<in> fst ` set ps \<or>
         (length ps = 5 \<and>
          (\<forall>p \<in> set ps.
             length (filter (\<lambda>r. resolved endUserMap (requestUser r) = Some n) records) \<le> snd p)))"
    unfolding top_end_users_form
    by (rule ranking_generic [where g = "\<lambda>r. resolved endUserMap (requestUser r)"])
qed

theorem top_rankings_shape_witness:
  "list_all (\<lambda>n. map_of object_prototype n = None)
     [''Ann'', ''Bob'', ''Cy'', ''Dee'', ''Eve'', ''Una'', ''Vic'', ''Wim'', ''Xia'', ''Yul''] \<and>
   processTopAdministrators
     (map (\<lambda>i. new_ticket\<lparr>assignee := Some i, requestUser := Some (i + 1)\<rparr>)
        [1, 2, 1, 3, 2, 1, 4, 5, 3])
     (map_of [(1, ''Ann''), (2, ''Bob''), (3, ''Cy''), (4, ''Dee''), (5, ''Eve'')]) =
     map (\<lambda>(n, c). JObj [(''name'', JStr n), (''count'', JNum (of_nat c))])
       [(''Ann'', 3), (''Bob'', 2), (''Cy'', 2), (''Dee'', 1)] \<and>
   processTopEndUsers
     (map (\<lambda>i. new_ticket\<lparr>assignee := Some i, requestUser := Some (i + 1)\<rparr>)
        [1, 2, 1, 3, 2, 1, 4, 5, 3])
     (map_of [(2, ''Una''), (3, ''Vic''), (4, ''Wim''), (5, ''Xia''), (6, ''Yul'')]) =
     map (\<lambda>(n, c). JObj [(''name'', JStr n), (''count'', JNum (of_nat c))])
       [(''Una'', 3), (''Vic'', 2), (''Wim'', 2), (''Xia'', 1), (''Yul'', 1)]"
  using top_rankings_shape
    [of "map (\<lambda>i. new_ticket\<lparr>assignee := Some i, requestUser := Some (i + 1)\<rparr>)
           [1, 2, 1, 3, 2, 1, 4, 5, 3]"
        "map_of [(1, ''Ann''), (2, ''Bob''), (3, ''Cy''), (4, ''Dee''), (5, ''Eve'')]"
        "map_of [(2, ''Una''), (3, ''Vic''), (4, ''Wim''), (5, ''Xia''), (6, ''Yul'')]"]
  by (simp add: eval_defs)

section \<open>Priority distribution\<close>

lemma priority_name_label: "priority_name p \<in> set priority_rank_order"
  by (cases p) (auto simp: priorityMap_def priority_rank_order_def)

lemma labels_plain:
  "list_all (\<lambda>n. map_of object_prototype n = None) priority_rank_order"
  unfolding priority_rank_order_def object_prototype_def by simp

lemma label_plain:
  "n \<in> set priority_rank_order \<Longrightarrow> map_of object_prototype n = None"
  using labels_plain by (simp add: list_all_iff)

lemma rank_labels:
  "map label_rank priority_rank_order = [1, 2, 3, 4, 5, 999]"
  by (simp add: priority_rank_order_def order_def label_rank_def)

lemma rank_sorted: "sorted (map label_rank priority_rank_order)"
  by (simp add: rank_labels)

lemma rank_inj: "inj_on label_rank (set priority_rank_order)"
proof -
  have "distinct (map label_rank priority_rank_order)"
    by (simp add: rank_labels)
  then show ?thesis
    by (simp add: distinct_map)
qed

lemma rank_cmp:
  "keeps_order (Some (order_or_999 (get (value_entry a) ''name'')
                        - order_or_999 (get (value_entry b) ''name''))) =
   (label_rank (fst a) \<le> label_rank (fst b))"
  by (cases a; cases b) (simp add: value_entry_props label_rank_def)

lemma priority_sort_by_rank:
  "js_sort (\<lambda>a b. Some (order_or_999 (get (value_entry a) ''name'')
                          - order_or_999 (get (value_entry b) ''name''))) es =
   sort_key (\<lambda>p. label_rank (fst p)) es"
  by (rule js_sort_key) (rule rank_cmp)

lemma sorted_by_rank_unique:
  fixes f :: "'a \<Rightarrow> rat"
  assumes "sorted (map f xs)" and "sorted (map f ys)"
    and "distinct xs" and "distinct ys" and "set xs = set ys" and "inj_on f (set xs)"
  shows "xs = ys"
proof -
  have "distinct (map f xs)" and "distinct (map f ys)"
    using assms by (simp_all add: distinct_map)
  moreover have "set (map f xs) = set (map f ys)"
    using assms(5) by simp
  ultimately have "map f xs = map f ys"
    using assms(1,2) by (metis sorted_distinct_set_unique)
  then show ?thesis
    using assms(5,6) by (simp add: inj_on_map_eq_map)
qed

lemma priority_ranked_names:
  fixes ns :: "string list"
  assumes "set ns \<subseteq> set priority_rank_order"
  defines "l \<equiv> js_sort (\<lambda>a b. Some (order_or_999 (get (value_entry a) ''name'')
                                       - order_or_999 (get (value_entry b) ''name'')))
                  (object_entries (foldl increment [] ns))"
  shows "map fst l = filter (\<lambda>x. x \<in> set ns) priority_rank_order"
proof (rule sorted_by_rank_unique [where f = label_rank])
  have plain: "\<forall>n \<in> set ns. map_of object_prototype n = None"
    using assms(1) label_plain by blast
  have "sorted (map (\<lambda>p. label_rank (fst p)) l)"
    unfolding l_def priority_sort_by_rank by (rule sorted_sort_key)
  then show "sorted (map label_rank (map fst l))"
    by (simp add: comp_def)
  show "sorted (map label_rank (filter (\<lambda>x. x \<in> set ns) priority_rank_order))"
    using rank_sorted by (rule sorted_filter)
  show "distinct (map fst l)"
    unfolding l_def by (rule ranked_distinct)
  show "distinct (filter (\<lambda>x. x \<in> set ns) priority_rank_order)"
    by (simp add: priority_rank_order_def)
  have keys: "set (map fst l) = set ns"
  proof (intro set_eqI iffI)
    fix n assume "n \<in> set (map fst l)"
    then obtain p where "p \<in> set l" and "fst p = n" by auto
    then show "n \<in> set ns"
      using ranked_member [OF plain, of p] by (auto simp: l_def)
  next
    fix n assume "n \<in> set ns"
    then have "(n, Count (count_list ns n)) \<in> set l"
      unfolding l_def using plain by (intro ranked_complete) simp_all
    then show "n \<in> set (map fst l)"
      by force
  qed
  then show "set (map fst l) = set (filter (\<lambda>x. x \<in> set ns) priority_rank_order)"
    using assms(1) by auto
  show "inj_on label_rank (set (map fst l))"
    using rank_inj assms(1) keys by (metis inj_on_subset)
qed

lemma priority_ranked:
  fixes ns :: "string list"
  assumes "set ns \<subseteq> set priority_rank_order"
  shows "js_sort (\<lambda>a b. Some (order_or_999 (get (value_entry a) ''name'')
                                - order_or_999 (get (value_entry b) ''name'')))
           (object_entries (foldl increment [] ns)) =
         map (\<lambda>x. (x, Count (count_list ns x))) (filter (\<lambda>x. x \<in> set ns) priority_rank_order)"
proof -
  let ?l = "js_sort (\<lambda>a b. Some (order_or_999 (get (value_entry a) ''name'')
                                   - order_or_999 (get (value_entry b) ''name'')))
              (object_entries (foldl increment [] ns))"
  have plain: "\<forall>n \<in> set ns. map_of object_prototype n = None"
    using assms label_plain by blast
  have "map (\<lambda>p. (fst p, Count (count_list ns (fst p)))) ?l = ?l"
  proof (rule map_idI)
    fix p assume "p \<in> set ?l"
    then have "snd p = Count (count_list ns (fst p))"
      using ranked_member [OF plain, of p] by simp
    then show "(fst p, Count (count_list ns (fst p))) = p"
      by (metis prod.collapse)
  qed
  then have "?l = map (\<lambda>x. (x, Count (count_list ns x))) (map fst ?l)"
    by (simp add: comp_def)
  also have "map fst ?l = filter (\<lambda>x. x \<in> set ns) priority_rank_order"
    by (rule priority_ranked_names [OF assms])
  finally show ?thesis .
qed

lemma priority_distribution_char:
  "processPriorityDistribution records =
   map (\<lambda>l. value_entry
              (l, Count (length (filter (\<lambda>r. priority_name (priority r) = l) records))))
     (filter (\<lambda>l. \<exists>r\<in>set records. priority_name (priority r) = l) priority_rank_order)"
proof -
  let ?ns = "map (\<lambda>r. priority_name (priority r)) records"
  have sub: "set ?ns \<subseteq> set priority_rank_order"
    using priority_name_label by auto
  have mem: "(\<lambda>x. x \<in> set ?ns) = (\<lambda>l. \<exists>r\<in>set records. priority_name (priority r) = l)"
    by auto
  show ?thesis
    unfolding priority_distribution_form priority_ranked [OF sub] mem
    by (simp add: comp_def count_list_map)
qed

text \<open>
  C6. For records with priorities \<open>[2, 1, 3, 5]\<close> the priority distribution is exactly
  Very High, High, Normal, Very Low in that order, each with value 1. In general the
  distribution lists the labels that occur among the records in the fixed rank order
  Very High, High, Normal, Low, Very Low, Unknown, each once with the number of records
  carrying it, whatever those numbers are; labels that do not occur are left out. A
  missing priority and every priority outside 1 to 5 has the label Unknown, and 1 to 5
  have the labels Very High to Very Low.
\<close>

theorem priority_distribution_order:
  "(map priority records = [Some 2, Some 1, Some 3, Some 5] \<longrightarrow>
      processPriorityDistribution records =
        [JObj [(''name'', JStr ''Very High''), (''value'', JNum 1)],
         JObj [(''name'', JStr ''High''), (''value'', JNum 1)],
         JObj [(''name'', JStr ''Normal''), (''value'', JNum 1)],
         JObj [(''name'', JStr ''Very Low''), (''value'', JNum 1)]]) \<and>
   processPriorityDistribution records =
     map (\<lambda>l. JObj [(''name'', JStr l),
                     (''value'', JNum (of_nat (length
                        (filter (\<lambda>r. priority_name (priority r) = l) records))))])
       (filter (\<lambda>l. \<exists>r\<in>set records. priority_name (priority r) = l) priority_rank_order) \<and>
   (p = None \<or> (\<exists>n. p = Some n \<and> (n < 1 \<or> 5 < n)) \<longrightarrow> priority_name p = ''Unknown'') \<and>
   map priority_name [Some 1, Some 2, Some 3, Some 4, Some 5] =
     [''Very High'', ''High'', ''Normal'', ''Low'', ''Very Low'']"
proof (intro conjI impI)
  assume "map priority records = [Some 2, Some 1, Some 3, Some 5]"
  then obtain a b c d where recs: "records = [a, b, c, d]"
    and pr: "priority a = Some 2" "priority b = Some 1" "priority c = Some 3"
            "priority d = Some 5"
    by (auto simp: map_eq_Cons_conv)
  show "processPriorityDistribution records =
        [JObj [(''name'', JStr ''Very High''), (''value'', JNum 1)],
         JObj [(''name'', JStr ''High''), (''value'', JNum 1)],
         JObj [(''name'', JStr ''Normal''), (''value'', JNum 1)],
         JObj [(''name'', JStr ''Very Low''), (''value'', JNum 1)]]"
    unfolding priority_distribution_char
    by (simp add: recs pr priorityMap_def priority_rank_order_def value_entry_def)
next
  show "processPriorityDistribution records =
     map (\<lambda>l. JObj [(''name'', JStr l),
                     (''value'', JNum (of_nat (length
                        (filter (\<lambda>r. priority_name (priority r) = l) records))))])
       (filter (\<lambda>l. \<exists>r\<in>set records. priority_name (priority r) = l) priority_rank_order)"
    unfolding priority_distribution_char by (simp add: value_entry_def)
next
  assume "p = None \<or> (\<exists>n. p = Some n \<and> (n < 1 \<or> 5 < n))"
  then show "priority_name p = ''Unknown''"
    by (auto simp: priorityMap_def)
next
  show "map priority_name [Some 1, Some 2, Some 3, Some 4, Some 5] =
     [''Very High'', ''High'', ''Normal'', ''Low'', ''Very Low'']"
    by (simp add: priorityMap_def)
qed

theorem priority_distribution_order_witness:
  "map priority (map (\<lambda>p. new_ticket\<lparr>priority := Some p\<rparr>) [2, 1, 3, 5]) =
     [Some 2, Some 1, Some 3, Some 5] \<and>
   processPriorityDistribution (map (\<lambda>p. new_ticket\<lparr>priority := Some p\<rparr>) [2, 1, 3, 5]) =
     [JObj [(''name'', JStr ''Very High''), (''value'', JNum 1)],
      JObj [(''name'', JStr ''High''), (''value'', JNum 1)],
      JObj [(''name'', JStr ''Normal''), (''value'', JNum 1)],
      JObj [(''name'', JStr ''Very Low''), (''value'', JNum 1)]] \<and>
   priority_name (Some 7) = ''Unknown'' \<and>
   processPriorityDistribution
     (map (\<lambda>p. new_ticket\<lparr>priority := p\<rparr>) [Some 5, Some 5, None, Some 7, Some 1]) =
     [JObj [(''name'', JStr ''Very High''), (''value'', JNum 1)],
      JObj [(''name'', JStr ''Very Low''), (''value'', JNum 2)],
      JObj [(''name'', JStr ''Unknown''), (''value'', JNum 2)]]"
proof -
  have a: "map priority (map (\<lambda>p. new_ticket\<lparr>priority := Some p\<rparr>) [2, 1, 3, 5]) =
     [Some 2, Some 1, Some 3, Some 5]"
    by simp
  have b: "processPriorityDistribution
      (map (\<lambda>p. new_ticket\<lparr>priority := Some p\<rparr>) [2, 1, 3, 5]) =
     [JObj [(''name'', JStr ''Very High''), (''value'', JNum 1)],
      JObj [(''name'', JStr ''High''), (''value'', JNum 1)],
      JObj [(''name'', JStr ''Normal''), (''value'', JNum 1)],
      JObj [(''name'', JStr ''Very Low''), (''value'', JNum 1)]]"
    using priority_distribution_order
      [of "map (\<lambda>p. new_ticket\<lparr>priority := Some p\<rparr>) [2, 1, 3, 5]" "Some 7"] a
    by blast
  have c: "priority_name (Some 7) = ''Unknown''"
    using priority_distribution_order [of "[]" "Some 7"] by simp
  have d: "processPriorityDistribution
     (map (\<lambda>p. new_ticket\<lparr>priority := p\<rparr>) [Some 5, Some 5, None, Some 7, Some 1]) =
     [JObj [(''name'', JStr ''Very High''), (''value'', JNum 1)],
      JObj [(''name'', JStr ''Very Low''), (''value'', JNum 2)],
      JObj [(''name'', JStr ''Unknown''), (''value'', JNum 2)]]"
    by (simp add: eval_defs)
  show ?thesis
    using a b c d by blast
qed

section \<open>Active-ticket snapshot\<close>

lemma is_overdue_iff:
  "is_overdue getTime now d =
   (\<exists>s t. d = Some s \<and> s \<noteq> [] \<and> getTime s = Num t \<and> t < now)"
  by (cases d) (auto split: jsnum.splits)

lemma inserted_before_iff:
  "inserted_before i limit = (\<exists>t. i = Some t \<and> t \<noteq> 0 \<and> t < limit)"
  by (cases i) auto

lemma falsy_str_iff: "(\<not> truthy_str d) = (d = None \<or> d = Some [])"
  by (cases d) auto

text \<open>
  C9, as stated, fails for \<open>openMoreThan5Days\<close>. One active record whose insertTime is
  the epoch, 0, has insertTime before \<open>now - 5 days\<close> at the clock
  \<open>1000000000000\<close>, so the stated fraction is 1 and the percentage 100; the handler
  reports 0, because \<open>r.insertTime && ...\<close> treats the number 0 as a missing value.
\<close>

theorem active_snapshot_epoch_insertTime:
  "insertTime (new_ticket\<lparr>status := Some 1, insertTime := Some 0\<rparr>) = Some 0 \<and>
   (0::int) < 1000000000000 - 5 * 24 * 60 * 60 * 1000 \<and>
   filter (\<lambda>r. status r \<noteq> Some 34) [new_ticket\<lparr>status := Some 1, insertTime := Some 0\<rparr>] =
     [new_ticket\<lparr>status := Some 1, insertTime := Some 0\<rparr>] \<and>
   get (activeTickets_data (\<lambda>s. NaN) 1000000000000
          [new_ticket\<lparr>status := Some 1, insertTime := Some 0\<rparr>]) ''openMoreThan5Days'' =
     Some (JNum 0)"
  by (simp add: activeTickets_data_def new_ticket_def Let_def)

text \<open>
  C9, amended. Over the active records (status other than 34), with \<open>n\<close> their number:
  \<open>overduePercent\<close> is the fraction of them whose dueDate is a non-empty string that the
  runtime parses to a time before \<open>now\<close>, \<open>openMoreThan5Days\<close> the fraction with a
  non-zero insertTime before \<open>now - 5 days\<close> (432000000 ms), and \<open>noDueDate\<close> the
  fraction whose dueDate is missing or the empty string, each times 100; and when \<open>n\<close> is
  0 all three are exactly 0.
\<close>

theorem active_snapshot_percentages:
  "(let activeRecords = filter (\<lambda>r. status r \<noteq> Some 34) records;
        n = length activeRecords;
        data = activeTickets_data getTime now records;
        percent = (\<lambda>P. if n = 0 then 0
                        else (of_nat (length (filter P activeRecords)) / of_nat n) * 100)
    in get data ''overduePercent'' =
         Some (JNum (percent (\<lambda>r. \<exists>s t. dueDate r = Some s \<and> s \<noteq> [] \<and>
                                    getTime s = Num t \<and> t < now))) \<and>
       get data ''openMoreThan5Days'' =
         Some (JNum (percent (\<lambda>r. \<exists>t. insertTime r = Some t \<and> t \<noteq> 0 \<and>
                                    t < now - 432000000))) \<and>
       get data ''noDueDate'' =
         Some (JNum (percent (\<lambda>r. dueDate r = None \<or> dueDate r = Some []))) \<and>
       (n = 0 \<longrightarrow>
          get data ''overduePercent'' = Some (JNum 0) \<and>
          get data ''openMoreThan5Days'' = Some (JNum 0) \<and>
          get data ''noDueDate'' = Some (JNum 0)))"
  by (simp add: activeTickets_data_def Let_def is_overdue_iff inserted_before_iff
      falsy_str_iff)

theorem active_snapshot_percentages_witness:
  "filter (\<lambda>r. status r \<noteq> Some 34) [new_ticket\<lparr>status := Some 34\<rparr>] = [] \<and>
   get (activeTickets_data (\<lambda>s. NaN) 1000000000000 [new_ticket\<lparr>status := Some 34\<rparr>])
     ''overduePercent'' = Some (JNum 0) \<and>
   get (activeTickets_data (\<lambda>s. NaN) 1000000000000 [new_ticket\<lparr>status := Some 34\<rparr>])
     ''openMoreThan5Days'' = Some (JNum 0) \<and>
   get (activeTickets_data (\<lambda>s. NaN) 1000000000000 [new_ticket\<lparr>status := Some 34\<rparr>])
     ''noDueDate'' = Some (JNum 0) \<and>
   get (activeTickets_data (\<lambda>s. if s = ''2001-09-09'' then Num 1000000000000 else NaN)
          1700000000000
          [new_ticket\<lparr>status := Some 1, dueDate := Some ''2001-09-09''\<rparr>,
           new_ticket\<lparr>status := Some 2, insertTime := Some 1699999999000\<rparr>,
           new_ticket\<lparr>status := Some 34, insertTime := Some 5\<rparr>,
           new_ticket\<lparr>insertTime := Some 1000000000000, dueDate := Some ''soon''\<rparr>,
           new_ticket\<lparr>status := Some 3, insertTime := Some 1600000000000\<rparr>])
     ''overduePercent'' = Some (JNum 25)"
proof -
  have closed: "filter (\<lambda>r. status r \<noteq> Some 34) [new_ticket\<lparr>status := Some 34\<rparr>] = []"
    by simp
  have zero: "get (activeTickets_data (\<lambda>s. NaN) 1000000000000 [new_ticket\<lparr>status := Some 34\<rparr>])
     ''overduePercent'' = Some (JNum 0) \<and>
   get (activeTickets_data (\<lambda>s. NaN) 1000000000000 [new_ticket\<lparr>status := Some 34\<rparr>])
     ''openMoreThan5Days'' = Some (JNum 0) \<and>
   get (activeTickets_data (\<lambda>s. NaN) 1000000000000 [new_ticket\<lparr>status := Some 34\<rparr>])
     ''noDueDate'' = Some (JNum 0)"
    using active_snapshot_percentages
      [of "[new_ticket\<lparr>status := Some 34\<rparr>]" "\<lambda>s. NaN" 1000000000000]
    by (simp add: Let_def)
  have quarter: "get (activeTickets_data
          (\<lambda>s. if s = ''2001-09-09'' then Num 1000000000000 else NaN) 1700000000000
          [new_ticket\<lparr>status := Some 1, dueDate := Some ''2001-09-09''\<rparr>,
           new_ticket\<lparr>status := Some 2, insertTime := Some 1699999999000\<rparr>,
           new_ticket\<lparr>status := Some 34, insertTime := Some 5\<rparr>,
           new_ticket\<lparr>insertTime := Some 1000000000000, dueDate := Some ''soon''\<rparr>,
           new_ticket\<lparr>status := Some 3, insertTime := Some 1600000000000\<rparr>])
     ''overduePercent'' = Some (JNum 25)"
    by (simp add: activeTickets_data_def new_ticket_def Let_def)
  show ?thesis
    using closed zero quarter by blast
qed

end
